theory Spec2Isabelle
  imports Complex_Main
begin

section \<open>Data model\<close>

text \<open>
  A cell of a float column: \<open>None\<close> is NaN, \<open>Some x\<close> a finite value. Floats are
  idealised as reals. Dates are calendar days counted from a fixed origin, so the
  \<^verbatim>\<open>.days\<close> of a difference of two dates is their difference as integers.
\<close>

type_synonym cell = "real option"

datatype regime = TIGHTENING | EASING | STRESS | NORMAL

datatype py_error = ValueError | KeyError | IndexError | TypeError

text \<open>\<^verbatim>\<open>config.py\<close>, class \<^verbatim>\<open>Config\<close>: the parameters the three analytical modules read.\<close>

record config =
  RATE_CHANGE_THRESHOLD :: real
  VIX_STRESS_THRESHOLD :: real
  VIX_LOOKBACK :: nat
  SHOCK_YIELD_THRESHOLD :: real
  SHOCK_HORIZON :: nat
  SHOCK_LOOKBACK :: nat
  PORTFOLIO_WEIGHTS :: "(string \<times> real) list"
  TICKERS :: "string list"
  QUARTERLY_LOOKBACK :: nat
  ANNUALIZATION_FACTOR :: nat

definition Config :: config where
  "Config = \<lparr> RATE_CHANGE_THRESHOLD = 20 / 100,
              VIX_STRESS_THRESHOLD = 25,
              VIX_LOOKBACK = 5,
              SHOCK_YIELD_THRESHOLD = 70 / 100,
              SHOCK_HORIZON = 63,
              SHOCK_LOOKBACK = 21,
              PORTFOLIO_WEIGHTS = [(''SPY'', 60 / 100), (''TLT'', 30 / 100), (''GLD'', 10 / 100)],
              TICKERS = [''SPY'', ''TLT'', ''GLD''],
              QUARTERLY_LOOKBACK = 63,
              ANNUALIZATION_FACTOR = 252 \<rparr>"

text \<open>
  One row of the combined panel: the index value (the trading date) and the columns
  \<^verbatim>\<open>FED_FUNDS\<close>, \<^verbatim>\<open>TREASURY_10Y\<close>, \<^verbatim>\<open>VIX\<close> and one price per asset column. A panel is
  the list of its rows in index order, with the names of the asset columns it has.
\<close>

record obs =
  date :: int
  FED_FUNDS :: cell
  TREASURY_10Y :: cell
  VIX :: cell
  price :: "string \<Rightarrow> cell"

record panel =
  rows :: "obs list"
  asset_columns :: "string list"

text \<open>A row of the frame \<^verbatim>\<open>classify_regimes\<close> builds: the panel's columns and the four derived ones.\<close>

record lrow = obs +
  RATE_CHANGE_QTR :: cell
  YIELD_CHANGE_QTR :: cell
  VIX_MA :: cell
  REGIME :: regime

text \<open>
  The labelled frame. \<^verbatim>\<open>REGIME_SHIFT\<close> is the column \<^verbatim>\<open>identify_regime_transitions\<close>
  writes; \<open>None\<close> while the frame has no such column.
\<close>

record lframe =
  lrows :: "lrow list"
  lasset_columns :: "string list"
  REGIME_SHIFT :: "bool list option"

section \<open>pandas primitives used by the classifier\<close>

definition notna :: "cell \<Rightarrow> bool" where
  "notna c = (case c of None \<Rightarrow> False | Some x \<Rightarrow> True)"

definition cell_gt :: "cell \<Rightarrow> real \<Rightarrow> bool" where
  \<comment> \<open>\<^verbatim>\<open>c > t\<close> on floats: False when \<open>c\<close> is NaN\<close>
  "cell_gt c t = (case c of None \<Rightarrow> False | Some x \<Rightarrow> x > t)"

definition cell_lt :: "cell \<Rightarrow> real \<Rightarrow> bool" where
  "cell_lt c t = (case c of None \<Rightarrow> False | Some x \<Rightarrow> x < t)"

definition cell_sub :: "cell \<Rightarrow> cell \<Rightarrow> cell" where
  "cell_sub a b = (case a of None \<Rightarrow> None | Some x \<Rightarrow> (case b of None \<Rightarrow> None | Some y \<Rightarrow> Some (x - y)))"

definition diff :: "nat \<Rightarrow> cell list \<Rightarrow> cell list" where
  \<comment> \<open>\<^verbatim>\<open>Series.diff(n)\<close>: row \<open>i\<close> minus row \<open>i - n\<close>, NaN on the first \<open>n\<close> rows\<close>
  "diff n xs = map (\<lambda>i. if i < n then None else cell_sub (xs ! i) (xs ! (i - n))) [0..<length xs]"

definition window_mean :: "cell list \<Rightarrow> cell" where
  \<comment> \<open>mean of the non-NaN observations of a window; NaN when there are fewer than \<^verbatim>\<open>min_periods=1\<close>\<close>
  "window_mean win =
     (let vals = concat (map (\<lambda>c. case c of None \<Rightarrow> [] | Some x \<Rightarrow> [x]) win)
      in if length vals < 1 then None else Some (sum_list vals / real (length vals)))"

definition rolling_mean :: "nat \<Rightarrow> cell list \<Rightarrow> py_error + cell list" where
  \<comment> \<open>\<^verbatim>\<open>Series.rolling(window=w, min_periods=1).mean()\<close>; pandas raises ValueError when
      \<^verbatim>\<open>min_periods\<close> exceeds the window\<close>
  "rolling_mean w xs =
     (if w < 1 then Inl ValueError
      else Inr (map (\<lambda>i. window_mean (drop (Suc i - w) (take (Suc i) xs))) [0..<length xs]))"

section \<open>RegimeClassifier.classify\_regimes\<close>

definition loc_set_REGIME :: "lrow list \<Rightarrow> int \<Rightarrow> regime \<Rightarrow> lrow list" where
  \<comment> \<open>\<^verbatim>\<open>df.loc[label, 'REGIME'] = regime\<close>: every row carrying the index label is written\<close>
  "loc_set_REGIME df label regime = map (\<lambda>r. if date r = label then r\<lparr>REGIME := regime\<rparr> else r) df"

definition rule_regime :: "config \<Rightarrow> cell \<Rightarrow> cell \<Rightarrow> cell \<Rightarrow> regime" where
  \<comment> \<open>the if / elif chain of the loop body, in the source's order\<close>
  "rule_regime cfg vix_level rate_chg yield_chg =
     (let threshold = RATE_CHANGE_THRESHOLD cfg; vix_threshold = VIX_STRESS_THRESHOLD cfg
      in if notna vix_level \<and> cell_gt vix_level vix_threshold then STRESS
         else if (notna rate_chg \<and> cell_gt rate_chg threshold) \<or>
                 (notna yield_chg \<and> cell_gt yield_chg threshold) then TIGHTENING
         else if (notna rate_chg \<and> cell_lt rate_chg (- threshold)) \<or>
                 (notna yield_chg \<and> cell_lt yield_chg (- threshold)) then EASING
         else NORMAL)"

definition classify_step :: "config \<Rightarrow> nat \<Rightarrow> lrow list \<Rightarrow> lrow list" where
  \<comment> \<open>one iteration of \<^verbatim>\<open>for i in range(lookback, len(df))\<close>\<close>
  "classify_step cfg i df =
     (let vix_level = VIX_MA (df ! i);
          rate_chg = RATE_CHANGE_QTR (df ! i);
          yield_chg = YIELD_CHANGE_QTR (df ! i);
          regime = rule_regime cfg vix_level rate_chg yield_chg
      in loc_set_REGIME df (date (df ! i)) regime)"

definition init_row :: "obs \<Rightarrow> cell \<Rightarrow> cell \<Rightarrow> cell \<Rightarrow> lrow" where
  "init_row r rc yc ma =
     \<lparr> date = date r, FED_FUNDS = FED_FUNDS r, TREASURY_10Y = TREASURY_10Y r, VIX = VIX r,
       price = price r,
       RATE_CHANGE_QTR = rc, YIELD_CHANGE_QTR = yc, VIX_MA = ma, REGIME = NORMAL \<rparr>"

definition derived_rows :: "nat \<Rightarrow> obs list \<Rightarrow> cell list \<Rightarrow> lrow list" where
  \<comment> \<open>the frame after the column assignments and \<^verbatim>\<open>df['REGIME'] = 'NORMAL'\<close>\<close>
  "derived_rows lookback rs ma =
     map (\<lambda>i. init_row (rs ! i) (diff lookback (map FED_FUNDS rs) ! i)
                        (diff lookback (map TREASURY_10Y rs) ! i) (ma ! i))
         [0..<length rs]"

definition classify_regimes_df :: "config \<Rightarrow> panel \<Rightarrow> py_error + lframe" where
  \<comment> \<open>lines 26 to 69 of \<^verbatim>\<open>classify_regimes\<close>: the frame \<^verbatim>\<open>df\<close> built from a copy of \<^verbatim>\<open>self.data\<close>\<close>
  "classify_regimes_df cfg p =
     (let lookback = QUARTERLY_LOOKBACK cfg
      in case rolling_mean (VIX_LOOKBACK cfg) (map VIX (rows p)) of
           Inl e \<Rightarrow> Inl e
         | Inr ma \<Rightarrow>
             (let df = derived_rows lookback (rows p) ma
              in Inr \<lparr> lrows = fold (classify_step cfg) [lookback..<length df] df,
                       lasset_columns = asset_columns p,
                       REGIME_SHIFT = None \<rparr>))"

definition unique_index :: "panel \<Rightarrow> bool" where
  \<comment> \<open>the panel invariant of the data model: no trading date occurs twice\<close>
  "unique_index p = distinct (map date (rows p))"

section \<open>Row-wise view of the classification\<close>

text \<open>
  What the frame built by \<^verbatim>\<open>classify_regimes\<close> holds on row \<open>i\<close>, written as a function of
  the input panel. These are not functions of the source: the loop above is shown to compute
  them (lemma \<open>classify_regimes_df_rows\<close>), and the properties are stated through them.
\<close>

definition row_rule :: "config \<Rightarrow> lrow \<Rightarrow> regime" where
  "row_rule cfg r = rule_regime cfg (VIX_MA r) (RATE_CHANGE_QTR r) (YIELD_CHANGE_QTR r)"

definition trailing_vix_mean :: "config \<Rightarrow> obs list \<Rightarrow> nat \<Rightarrow> cell" where
  \<comment> \<open>the volatility moving average of row \<open>i\<close>, read off the input panel\<close>
  "trailing_vix_mean cfg rs i =
     window_mean (drop (Suc i - VIX_LOOKBACK cfg) (take (Suc i) (map VIX rs)))"

definition trailing_change :: "nat \<Rightarrow> cell list \<Rightarrow> nat \<Rightarrow> cell" where
  \<comment> \<open>the trailing change of row \<open>i\<close> over \<open>n\<close> rows, read off the input column\<close>
  "trailing_change n xs i = (if i < n then None else cell_sub (xs ! i) (xs ! (i - n)))"

definition labelled_row :: "config \<Rightarrow> obs list \<Rightarrow> nat \<Rightarrow> lrow" where
  "labelled_row cfg rs i =
     (let rc = trailing_change (QUARTERLY_LOOKBACK cfg) (map FED_FUNDS rs) i;
          yc = trailing_change (QUARTERLY_LOOKBACK cfg) (map TREASURY_10Y rs) i;
          ma = trailing_vix_mean cfg rs i
      in (init_row (rs ! i) rc yc ma)
           \<lparr>REGIME := (if QUARTERLY_LOOKBACK cfg \<le> i then rule_regime cfg ma rc yc else NORMAL)\<rparr>)"

subsection \<open>Prefixes of a panel\<close>

definition truncate_to :: "int \<Rightarrow> panel \<Rightarrow> panel" where
  \<comment> \<open>the panel restricted to the dates up to and including \<open>t\<close>\<close>
  "truncate_to t p = p\<lparr>rows := filter (\<lambda>r. date r \<le> t) (rows p)\<rparr>"

definition increasing_index :: "panel \<Rightarrow> bool" where
  \<comment> \<open>the panel invariant of the data model: trading dates strictly increase along the rows\<close>
  "increasing_index p = sorted_wrt (<) (map date (rows p))"

section \<open>The classifier object and its frames\<close>

text \<open>
  pandas frames are objects: \<^verbatim>\<open>classify_regimes\<close> stores the frame it built in
  \<^verbatim>\<open>self.regime_data\<close> and returns the same object, and \<^verbatim>\<open>identify_regime_transitions\<close>
  works on \<^verbatim>\<open>self.regime_data\<close> without copying. The store maps a reference (a position)
  to the frame object it denotes; a new object is put at the end.
\<close>

type_synonym ref = nat

type_synonym store = "lframe list"

record RegimeClassifier =
  data :: panel
  config :: config
  regime_data :: "ref option"

definition RegimeClassifier_init :: "panel \<Rightarrow> config \<Rightarrow> RegimeClassifier" where
  \<comment> \<open>\<^verbatim>\<open>__init__\<close>: \<^verbatim>\<open>self.data = data.copy()\<close>, so the object owns its panel\<close>
  "RegimeClassifier_init d c = \<lparr> data = d, config = c, regime_data = None \<rparr>"

definition classify_regimes ::
  "RegimeClassifier \<Rightarrow> store \<Rightarrow> py_error + (ref \<times> RegimeClassifier \<times> store)" where
  \<comment> \<open>\<^verbatim>\<open>self.regime_data = df; return df\<close>: the attribute and the result are one object\<close>
  "classify_regimes self h =
     (case classify_regimes_df (config self) (data self) of
        Inl e \<Rightarrow> Inl e
      | Inr df \<Rightarrow> (let r = length h in Inr (r, self\<lparr>regime_data := Some r\<rparr>, h @ [df])))"

text \<open>A row of the transition summary: the index and the five selected columns.\<close>

record transition =
  t_date :: int
  t_REGIME :: regime
  PREV_REGIME :: "regime option"
  t_VIX :: cell
  t_FED_FUNDS :: cell
  t_TREASURY_10Y :: cell

definition shift1 :: "'a list \<Rightarrow> 'a option list" where
  \<comment> \<open>\<^verbatim>\<open>Series.shift(1)\<close>: the previous row's value, NaN on the first row\<close>
  "shift1 xs = map (\<lambda>i. if i = 0 then None else Some (xs ! (i - 1))) [0..<length xs]"

definition regime_shift :: "regime list \<Rightarrow> bool list" where
  \<comment> \<open>\<^verbatim>\<open>df['REGIME'] != df['REGIME'].shift(1)\<close>; a label never equals NaN\<close>
  "regime_shift gs = map (\<lambda>(g, pg). Some g \<noteq> pg) (zip gs (shift1 gs))"

definition transition_row :: "lrow \<Rightarrow> regime option \<Rightarrow> transition" where
  "transition_row r pg =
     \<lparr> t_date = date r, t_REGIME = REGIME r, PREV_REGIME = pg,
       t_VIX = VIX r, t_FED_FUNDS = FED_FUNDS r, t_TREASURY_10Y = TREASURY_10Y r \<rparr>"

definition identify_regime_transitions ::
  "RegimeClassifier \<Rightarrow> store \<Rightarrow> py_error + (transition list \<times> store)" where
  \<comment> \<open>\<^verbatim>\<open>df = self.regime_data\<close> is the stored object itself, and
      \<^verbatim>\<open>df['REGIME_SHIFT'] = ...\<close> writes the column into it\<close>
  "identify_regime_transitions self h =
     (case regime_data self of
        None \<Rightarrow> Inl ValueError
      | Some r \<Rightarrow>
          (let df = h ! r;
               mask = regime_shift (map REGIME (lrows df));
               df' = df\<lparr>REGIME_SHIFT := Some mask\<rparr>;
               h' = h[r := df'];
               transitions = map fst (filter snd (zip (lrows df') mask));
               prev_regime = map fst (filter snd (zip (shift1 (map REGIME (lrows df'))) mask));
               transition_summary =
                 map (\<lambda>(row, pg). transition_row row pg) (zip transitions prev_regime)
           in Inr (transition_summary, h')))"

definition get_data :: "RegimeClassifier \<Rightarrow> store \<Rightarrow> py_error + ref" where
  "get_data self h = (case regime_data self of None \<Rightarrow> Inl ValueError | Some r \<Rightarrow> Inr r)"

section \<open>RateShockAnalyzer\<close>

text \<open>
  The analyzer reads the index, \<^verbatim>\<open>TREASURY_10Y\<close> and the asset columns of its frame; the
  derived columns of the earlier stages are not read, so the frame is taken as a panel.
  A response is one dict of \<^verbatim>\<open>measure_shock_response\<close>: \<open>rets\<close> holds the entries
  \<^verbatim>\<open>'{ticker}_ret'\<close> under the ticker's name, in insertion order.
\<close>

record response =
  shock_date :: int
  start_yield :: cell
  end_yield :: cell
  rets :: "(string \<times> cell) list"

record RateShockAnalyzer =
  sa_data :: panel
  sa_config :: config
  shock_dates :: "int list option"
  shock_responses :: "response list option"

definition RateShockAnalyzer_init :: "panel \<Rightarrow> config \<Rightarrow> RateShockAnalyzer" where
  "RateShockAnalyzer_init d c =
     \<lparr> sa_data = d, sa_config = c, shock_dates = None, shock_responses = None \<rparr>"

subsection \<open>identify\_shocks\<close>

definition shock_candidates :: "config \<Rightarrow> panel \<Rightarrow> int list" where
  \<comment> \<open>\<^verbatim>\<open>df[df['YIELD_CHG'] > threshold].index.tolist()\<close>\<close>
  "shock_candidates cfg p =
     (let lookback = SHOCK_LOOKBACK cfg;
          yield_chg = diff lookback (map TREASURY_10Y (rows p));
          threshold = SHOCK_YIELD_THRESHOLD cfg;
          shock_mask = map (\<lambda>c. cell_gt c threshold) yield_chg
      in map (\<lambda>(r, m). date r) (filter snd (zip (rows p) shock_mask)))"

fun filter_shocks :: "int list \<Rightarrow> int list \<Rightarrow> int option \<Rightarrow> int list" where
  \<comment> \<open>the loop over the candidates, carrying \<^verbatim>\<open>filtered_shocks\<close> and \<^verbatim>\<open>last_shock\<close>\<close>
  "filter_shocks [] filtered_shocks last_shock = filtered_shocks"
| "filter_shocks (d # ds) filtered_shocks last_shock =
     (if (case last_shock of None \<Rightarrow> True | Some l \<Rightarrow> d - l > 180)
      then filter_shocks ds (filtered_shocks @ [d]) (Some d)
      else filter_shocks ds filtered_shocks last_shock)"

definition identify_shocks :: "RateShockAnalyzer \<Rightarrow> int list \<times> RateShockAnalyzer" where
  "identify_shocks self =
     (let filtered_shocks = filter_shocks (shock_candidates (sa_config self) (sa_data self)) [] None
      in (filtered_shocks, self\<lparr>shock_dates := Some filtered_shocks\<rparr>))"

definition sorted_index :: "panel \<Rightarrow> bool" where
  \<comment> \<open>the rows are in chronological order\<close>
  "sorted_index p = sorted (map date (rows p))"

subsection \<open>measure\_shock\_response\<close>

datatype loc = Pos nat | Many

definition get_loc :: "int list \<Rightarrow> int \<Rightarrow> py_error + loc" where
  \<comment> \<open>\<^verbatim>\<open>Index.get_loc\<close>: the position of a label that occurs once, KeyError for a label that
      does not occur, a slice or a mask (no integer) for a label that occurs several times\<close>
  "get_loc idx label =
     (case filter (\<lambda>i. idx ! i = label) [0..<length idx] of
        [] \<Rightarrow> Inl KeyError
      | [i] \<Rightarrow> Inr (Pos i)
      | _ \<Rightarrow> Inr Many)"

definition iloc :: "'a list \<Rightarrow> nat \<Rightarrow> py_error + 'a" where
  \<comment> \<open>\<^verbatim>\<open>Series.iloc[i]\<close> at a position that is not negative: IndexError past the last row\<close>
  "iloc xs i = (if i < length xs then Inr (xs ! i) else Inl IndexError)"

definition pct_ret :: "cell \<Rightarrow> cell \<Rightarrow> cell" where
  \<comment> \<open>\<^verbatim>\<open>(end_price / start_price - 1) * 100\<close>; a numpy division by zero raises nothing and
      gives an infinity or NaN, which is no finite value\<close>
  "pct_ret end_price start_price =
     (case end_price of None \<Rightarrow> None
      | Some e \<Rightarrow> (case start_price of None \<Rightarrow> None
                   | Some s \<Rightarrow> if s = 0 then None else Some ((e / s - 1) * 100)))"

datatype outcome = Measured response | Skipped | Failed py_error

definition ticker_rets :: "config \<Rightarrow> panel \<Rightarrow> nat \<Rightarrow> nat \<Rightarrow> py_error + (string \<times> cell) list" where
  \<comment> \<open>the loop over \<^verbatim>\<open>TICKERS\<close>; a ticker without a column is passed over\<close>
  "ticker_rets cfg df shock_idx horizon =
     fold (\<lambda>ticker acc.
            case acc of Inl e \<Rightarrow> Inl e
            | Inr entries \<Rightarrow>
                if ticker \<notin> set (asset_columns df) then Inr entries
                else (case iloc (map (\<lambda>r. price r ticker) (rows df)) shock_idx of
                        Inl e \<Rightarrow> Inl e
                      | Inr start_price \<Rightarrow>
                          (case iloc (map (\<lambda>r. price r ticker) (rows df)) (shock_idx + horizon) of
                             Inl e \<Rightarrow> Inl e
                           | Inr end_price \<Rightarrow>
                               Inr (entries @ [(ticker, pct_ret end_price start_price)]))))
          (TICKERS cfg) (Inr [])"

definition measure_event :: "config \<Rightarrow> panel \<Rightarrow> int \<Rightarrow> outcome" where
  \<comment> \<open>the body of the loop over the shock dates; \<^verbatim>\<open>except Exception\<close> turns every error
      of the body into a message and the next iteration. For a label that occurs several
      times \<^verbatim>\<open>get_loc\<close> gives no integer, and adding the horizon to it raises\<close>
  "measure_event cfg df sd =
     (let horizon = SHOCK_HORIZON cfg
      in case get_loc (map date (rows df)) sd of
           Inl e \<Rightarrow> Failed e
         | Inr Many \<Rightarrow> Failed TypeError
         | Inr (Pos shock_idx) \<Rightarrow>
             if shock_idx + horizon \<ge> length (rows df) then Skipped
             else (case iloc (map TREASURY_10Y (rows df)) shock_idx of
                     Inl e \<Rightarrow> Failed e
                   | Inr sy \<Rightarrow>
                       (case iloc (map TREASURY_10Y (rows df)) (shock_idx + horizon) of
                          Inl e \<Rightarrow> Failed e
                        | Inr ey \<Rightarrow>
                            (case ticker_rets cfg df shock_idx horizon of
                               Inl e \<Rightarrow> Failed e
                             | Inr entries \<Rightarrow>
                                 Measured \<lparr> shock_date = sd, start_yield = sy, end_yield = ey,
                                            rets = entries \<rparr>))))"

definition collect_responses :: "config \<Rightarrow> panel \<Rightarrow> int list \<Rightarrow> response list" where
  "collect_responses cfg df sds =
     concat (map (\<lambda>sd. case measure_event cfg df sd of Measured r \<Rightarrow> [r] | _ \<Rightarrow> []) sds)"

definition measure_shock_response ::
  "RateShockAnalyzer \<Rightarrow> int list option \<Rightarrow> py_error + (response list \<times> RateShockAnalyzer)" where
  "measure_shock_response self sds_arg =
     (case (case sds_arg of
              None \<Rightarrow> (case shock_dates self of None \<Rightarrow> Inl ValueError | Some sds \<Rightarrow> Inr sds)
            | Some sds \<Rightarrow> Inr sds) of
        Inl e \<Rightarrow> Inl e
      | Inr sds \<Rightarrow>
          (let responses = collect_responses (sa_config self) (sa_data self) sds
           in Inr (responses, self\<lparr>shock_responses := Some responses\<rparr>)))"

subsection \<open>numpy reductions used by the stress test\<close>

text \<open>
  An array of floats is a list of cells. A NaN in the array makes every reduction below NaN.
  On the empty array \<^verbatim>\<open>np.median\<close>, \<^verbatim>\<open>np.mean\<close> and \<^verbatim>\<open>np.std\<close> give NaN with a warning,
  while \<^verbatim>\<open>np.min\<close> and \<^verbatim>\<open>np.max\<close> raise ValueError (a zero-size array has no minimum).
  What \<^verbatim>\<open>np.percentile\<close> does on the empty array differs between numpy releases (NaN with
  a warning, or IndexError); it is the parameter \<open>on_empty\<close>.
\<close>

definition finite_values :: "cell list \<Rightarrow> real list" where
  "finite_values xs = concat (map (\<lambda>c. case c of None \<Rightarrow> [] | Some x \<Rightarrow> [x]) xs)"

definition has_nan :: "cell list \<Rightarrow> bool" where
  "has_nan xs = (None \<in> set xs)"

definition np_mean :: "cell list \<Rightarrow> cell" where
  "np_mean xs =
     (if xs = [] \<or> has_nan xs then None
      else Some (sum_list (finite_values xs) / real (length xs)))"

definition np_std :: "cell list \<Rightarrow> cell" where
  \<comment> \<open>the population standard deviation (\<^verbatim>\<open>ddof=0\<close>)\<close>
  "np_std xs =
     (case np_mean xs of
        None \<Rightarrow> None
      | Some m \<Rightarrow> Some (sqrt (sum_list (map (\<lambda>x. (x - m)\<^sup>2) (finite_values xs)) / real (length xs))))"

definition interpolate :: "real list \<Rightarrow> real \<Rightarrow> real" where
  \<comment> \<open>the default (linear) method: position \<open>(n - 1) * q / 100\<close> in the sorted values\<close>
  "interpolate s q =
     (let n = length s;
          pos = real (n - 1) * q / 100;
          lo = nat \<lfloor>pos\<rfloor>;
          hi = min (lo + 1) (n - 1)
      in s ! lo + (s ! hi - s ! lo) * (pos - real lo))"

definition np_percentile :: "(py_error + cell) \<Rightarrow> cell list \<Rightarrow> real \<Rightarrow> py_error + cell" where
  "np_percentile on_empty xs q =
     (if xs = [] then on_empty
      else if has_nan xs then Inr None
      else Inr (Some (interpolate (sort (finite_values xs)) q)))"

definition np_median :: "cell list \<Rightarrow> cell" where
  \<comment> \<open>the middle value, or the mean of the two middle values: position \<open>(n - 1) / 2\<close>\<close>
  "np_median xs =
     (if xs = [] \<or> has_nan xs then None
      else Some (interpolate (sort (finite_values xs)) 50))"

definition np_min :: "cell list \<Rightarrow> py_error + cell" where
  "np_min xs =
     (if xs = [] then Inl ValueError
      else if has_nan xs then Inr None
      else Inr (Some (fold min (tl (finite_values xs)) (hd (finite_values xs)))))"

definition np_max :: "cell list \<Rightarrow> py_error + cell" where
  "np_max xs =
     (if xs = [] then Inl ValueError
      else if has_nan xs then Inr None
      else Inr (Some (fold max (tl (finite_values xs)) (hd (finite_values xs)))))"

subsection \<open>portfolio\_stress\_test\<close>

record summary =
  s_median :: cell
  s_p10 :: cell
  s_p90 :: cell
  s_mean :: cell
  s_std :: cell
  s_min :: cell
  s_max :: cell
  s_count :: nat

record table_row =
  Scenario :: string
  by_ticker :: "(string \<times> cell) list"
  Portfolio :: cell

definition response_columns :: "response list \<Rightarrow> string list" where
  \<comment> \<open>the \<^verbatim>\<open>'{ticker}_ret'\<close> columns of the frame built from the response dicts\<close>
  "response_columns frame = remdups (concat (map (\<lambda>r. map fst (rets r)) frame))"

definition ret_cell :: "response \<Rightarrow> string \<Rightarrow> cell" where
  \<comment> \<open>the row's value in a column of the frame: NaN where the row's dict had no such key\<close>
  "ret_cell r ticker = (case map_of (rets r) ticker of None \<Rightarrow> None | Some v \<Rightarrow> v)"

definition row_get :: "response list \<Rightarrow> response \<Rightarrow> string \<Rightarrow> cell" where
  \<comment> \<open>\<^verbatim>\<open>row.get(f'{ticker}_ret', 0)\<close>\<close>
  "row_get frame r ticker =
     (if ticker \<in> set (response_columns frame) then ret_cell r ticker else Some 0)"

definition cell_add :: "cell \<Rightarrow> cell \<Rightarrow> cell" where
  "cell_add a b = (case a of None \<Rightarrow> None | Some x \<Rightarrow> (case b of None \<Rightarrow> None | Some y \<Rightarrow> Some (x + y)))"

definition cell_scale :: "real \<Rightarrow> cell \<Rightarrow> cell" where
  "cell_scale w c = (case c of None \<Rightarrow> None | Some x \<Rightarrow> Some (w * x))"

definition port_ret :: "(string \<times> real) list \<Rightarrow> response list \<Rightarrow> response \<Rightarrow> cell" where
  \<comment> \<open>\<^verbatim>\<open>sum(weights.get(ticker, 0) * row.get(...) for ticker in weights.keys())\<close>\<close>
  "port_ret weights frame r =
     fold (\<lambda>(ticker, w) acc. cell_add acc (cell_scale w (row_get frame r ticker))) weights (Some 0)"

fun sequence_err :: "('e + 'a) list \<Rightarrow> 'e + 'a list" where
  \<comment> \<open>results in evaluation order; the first error is the one raised\<close>
  "sequence_err [] = Inr []"
| "sequence_err (x # xs) =
     (case x of Inl e \<Rightarrow> Inl e
      | Inr v \<Rightarrow> (case sequence_err xs of Inl e \<Rightarrow> Inl e | Inr vs \<Rightarrow> Inr (v # vs)))"

definition detailed_row ::
  "(py_error + cell) \<Rightarrow> config \<Rightarrow> response list \<Rightarrow> cell list \<Rightarrow> real \<times> string \<Rightarrow> py_error + table_row" where
  "detailed_row on_empty cfg frame portfolio_rets pl =
     (case sequence_err
             (map (\<lambda>ticker. case np_percentile on_empty (map (\<lambda>r. ret_cell r ticker) frame) (fst pl) of
                               Inl e \<Rightarrow> Inl e | Inr v \<Rightarrow> Inr (ticker, v))
                  (filter (\<lambda>ticker. ticker \<in> set (response_columns frame)) (TICKERS cfg))) of
        Inl e \<Rightarrow> Inl e
      | Inr cells \<Rightarrow>
          (case np_percentile on_empty portfolio_rets (fst pl) of
             Inl e \<Rightarrow> Inl e
           | Inr p \<Rightarrow> Inr \<lparr> Scenario = snd pl, by_ticker = cells, Portfolio = p \<rparr>))"

definition portfolio_stress_test ::
  "(py_error + cell) \<Rightarrow> RateShockAnalyzer \<Rightarrow> (string \<times> real) list option \<Rightarrow>
   response list option \<Rightarrow> py_error + (summary \<times> table_row list)" where
  "portfolio_stress_test on_empty self weights_arg responses_arg =
     (case (case responses_arg of
              None \<Rightarrow>
                (case shock_responses self of
                   None \<Rightarrow> Inl ValueError
                 | Some rs \<Rightarrow> if length rs = 0 then Inl ValueError else Inr rs)
            | Some rs \<Rightarrow> Inr rs) of
        Inl e \<Rightarrow> Inl e
      | Inr frame \<Rightarrow>
          (let weights = (case weights_arg of None \<Rightarrow> PORTFOLIO_WEIGHTS (sa_config self) | Some w \<Rightarrow> w);
               portfolio_rets = map (port_ret weights frame) frame;
               median = np_median portfolio_rets
           in case np_percentile on_empty portfolio_rets 10 of
                Inl e \<Rightarrow> Inl e
              | Inr p10 \<Rightarrow>
              (case np_percentile on_empty portfolio_rets 90 of
                Inl e \<Rightarrow> Inl e
              | Inr p90 \<Rightarrow>
              (let mean = np_mean portfolio_rets; std = np_std portfolio_rets
               in case np_min portfolio_rets of
                Inl e \<Rightarrow> Inl e
              | Inr mn \<Rightarrow>
              (case np_max portfolio_rets of
                Inl e \<Rightarrow> Inl e
              | Inr mx \<Rightarrow>
              (let summary = \<lparr> s_median = median, s_p10 = p10, s_p90 = p90, s_mean = mean,
                               s_std = std, s_min = mn, s_max = mx,
                               s_count = length portfolio_rets \<rparr>
               in case sequence_err
                         (map (detailed_row on_empty (sa_config self) frame portfolio_rets)
                              [(10, ''Tail (10th pct)''), (50, ''Median''), (90, ''Best (90th pct)'')]) of
                    Inl e \<Rightarrow> Inl e
                  | Inr detailed_table \<Rightarrow> Inr (summary, detailed_table)))))))"

definition no_responses :: "RateShockAnalyzer \<Rightarrow> response list option \<Rightarrow> bool" where
  \<comment> \<open>the call has zero responses to work on: an empty frame is passed, or none is passed and
      the analyzer holds none or an empty one\<close>
  "no_responses self responses_arg =
     (case responses_arg of
        None \<Rightarrow> (case shock_responses self of None \<Rightarrow> True | Some rs \<Rightarrow> rs = [])
      | Some rs \<Rightarrow> rs = [])"

section \<open>PerformanceAnalyzer\<close>

text \<open>
  A row of the frame \<^verbatim>\<open>calculate_returns\<close> builds: the labelled row and the columns
  \<^verbatim>\<open>'{ticker}_RET'\<close>, read by ticker. The frame records which of these columns it has.
\<close>

record rrow = lrow +
  RET :: "string \<Rightarrow> cell"

record rframe =
  rrows :: "rrow list"
  rasset_columns :: "string list"
  ret_columns :: "string list"

record PerformanceAnalyzer =
  pa_data :: lframe
  pa_config :: config
  returns_data :: "rframe option"

record perf =
  Regime :: regime
  Asset :: string
  Ann_Return_pct :: cell
  Ann_Vol_pct :: cell
  Sharpe :: cell
  Max_DD_pct :: cell
  Win_Rate_pct :: cell
  Observations :: nat

subsection \<open>calculate\_returns\<close>

definition pct_change :: "cell list \<Rightarrow> cell list" where
  \<comment> \<open>\<^verbatim>\<open>Series.pct_change()\<close> on a column without NaN, as the combined panel's are: the change
      from the previous row, NaN on the first row\<close>
  "pct_change xs =
     map (\<lambda>i. if i = 0 then None
              else (case xs ! i of None \<Rightarrow> None
                    | Some cur \<Rightarrow> (case xs ! (i - 1) of None \<Rightarrow> None
                                   | Some prev \<Rightarrow> if prev = 0 then None else Some (cur / prev - 1))))
         [0..<length xs]"

definition add_returns :: "config \<Rightarrow> lframe \<Rightarrow> rframe" where
  "add_returns cfg df =
     (let present = filter (\<lambda>ticker. ticker \<in> set (lasset_columns df)) (TICKERS cfg)
      in \<lparr> rrows = map (\<lambda>i. lrow.extend (lrows df ! i)
                                (rrow.fields (\<lambda>ticker. if ticker \<in> set present
                                   then pct_change (map (\<lambda>r. price r ticker) (lrows df)) ! i
                                   else None)))
                       [0..<length (lrows df)],
             rasset_columns = lasset_columns df,
             ret_columns = present \<rparr>)"

definition calculate_returns :: "PerformanceAnalyzer \<Rightarrow> rframe \<times> PerformanceAnalyzer" where
  "calculate_returns self =
     (let df = add_returns (pa_config self) (pa_data self)
      in (df, self\<lparr>returns_data := Some df\<rparr>))"

subsection \<open>Series statistics\<close>

definition series_mean :: "real list \<Rightarrow> cell" where
  "series_mean xs = (if xs = [] then None else Some (sum_list xs / real (length xs)))"

definition series_std :: "real list \<Rightarrow> cell" where
  \<comment> \<open>\<^verbatim>\<open>Series.std()\<close>: the sample standard deviation (\<^verbatim>\<open>ddof=1\<close>), NaN below two values\<close>
  "series_std xs =
     (if length xs < 2 then None
      else Some (sqrt (sum_list (map (\<lambda>x. (x - sum_list xs / real (length xs))\<^sup>2) xs)
                       / real (length xs - 1))))"

fun cumprod_from :: "real \<Rightarrow> real list \<Rightarrow> real list" where
  "cumprod_from acc [] = []"
| "cumprod_from acc (x # xs) = (acc * x) # cumprod_from (acc * x) xs"

definition cumprod :: "real list \<Rightarrow> real list" where
  "cumprod xs = cumprod_from 1 xs"

fun cummax_from :: "real \<Rightarrow> real list \<Rightarrow> real list" where
  "cummax_from m [] = []"
| "cummax_from m (x # xs) = max m x # cummax_from (max m x) xs"

definition expanding_max :: "real list \<Rightarrow> real list" where
  \<comment> \<open>\<^verbatim>\<open>Series.expanding().max()\<close>: the largest value up to and including each row\<close>
  "expanding_max xs = (case xs of [] \<Rightarrow> [] | x # ys \<Rightarrow> x # cummax_from x ys)"

definition real_div :: "real \<Rightarrow> real \<Rightarrow> cell" where
  \<comment> \<open>float division: by zero it raises nothing and gives an infinity or NaN, no finite value\<close>
  "real_div n d = (if d = 0 then None else Some (n / d))"

definition series_min :: "cell list \<Rightarrow> cell" where
  \<comment> \<open>\<^verbatim>\<open>Series.min()\<close> skips NaN; NaN when nothing is left\<close>
  "series_min xs =
     (let vals = finite_values xs
      in if vals = [] then None else Some (fold min (tl vals) (hd vals)))"

definition rint :: "real \<Rightarrow> int" where
  \<comment> \<open>rounding to the nearest integer, a tie to the even one\<close>
  "rint x =
     (let f = \<lfloor>x\<rfloor>; d = x - of_int f
      in if d < 1 / 2 then f else if d > 1 / 2 then f + 1 else if even f then f else f + 1)"

definition round_to :: "nat \<Rightarrow> real \<Rightarrow> real" where
  \<comment> \<open>\<^verbatim>\<open>round(x, k)\<close> of a numpy float: scale, round to the nearest integer, scale back\<close>
  "round_to k x = of_int (rint (x * 10 ^ k)) / 10 ^ k"

definition cell_round :: "nat \<Rightarrow> cell \<Rightarrow> cell" where
  "cell_round k c = (case c of None \<Rightarrow> None | Some x \<Rightarrow> Some (round_to k x))"

subsection \<open>regime\_performance\<close>

definition ann_return :: "config \<Rightarrow> real list \<Rightarrow> cell" where
  \<comment> \<open>\<^verbatim>\<open>returns.mean() * ann_factor * 100\<close>\<close>
  "ann_return cfg returns =
     (case series_mean returns of None \<Rightarrow> None
      | Some m \<Rightarrow> Some (m * real (ANNUALIZATION_FACTOR cfg) * 100))"

definition ann_vol :: "config \<Rightarrow> real list \<Rightarrow> cell" where
  \<comment> \<open>\<^verbatim>\<open>returns.std() * np.sqrt(ann_factor) * 100\<close>\<close>
  "ann_vol cfg returns =
     (case series_std returns of None \<Rightarrow> None
      | Some s \<Rightarrow> Some (s * sqrt (real (ANNUALIZATION_FACTOR cfg)) * 100))"

definition sharpe :: "config \<Rightarrow> real list \<Rightarrow> cell" where
  \<comment> \<open>\<^verbatim>\<open>ann_return / ann_vol if ann_vol > 0 else 0\<close>; the test is False on NaN\<close>
  "sharpe cfg returns =
     (if cell_gt (ann_vol cfg returns) 0
      then (case ann_return cfg returns of None \<Rightarrow> None
            | Some r \<Rightarrow> (case ann_vol cfg returns of None \<Rightarrow> None | Some v \<Rightarrow> real_div r v))
      else Some 0)"

definition drawdown :: "real list \<Rightarrow> cell list" where
  "drawdown returns =
     (let cum_ret = cumprod (map (\<lambda>r. 1 + r) returns);
          running_max = expanding_max cum_ret
      in map (\<lambda>(c, m). real_div (c - m) m) (zip cum_ret running_max))"

definition max_dd :: "real list \<Rightarrow> cell" where
  \<comment> \<open>\<^verbatim>\<open>drawdown.min() * 100\<close>\<close>
  "max_dd returns = (case series_min (drawdown returns) of None \<Rightarrow> None | Some d \<Rightarrow> Some (d * 100))"

definition win_rate :: "real list \<Rightarrow> cell" where
  \<comment> \<open>\<^verbatim>\<open>(returns > 0).sum() / len(returns) * 100\<close>\<close>
  "win_rate returns =
     (case real_div (real (length (filter (\<lambda>r. r > 0) returns))) (real (length returns)) of
        None \<Rightarrow> None | Some w \<Rightarrow> Some (w * 100))"

definition perf_record :: "config \<Rightarrow> regime \<Rightarrow> string \<Rightarrow> real list \<Rightarrow> perf" where
  "perf_record cfg regime ticker returns =
     \<lparr> Regime = regime, Asset = ticker,
       Ann_Return_pct = cell_round 2 (ann_return cfg returns),
       Ann_Vol_pct = cell_round 2 (ann_vol cfg returns),
       Sharpe = cell_round 2 (sharpe cfg returns),
       Max_DD_pct = cell_round 2 (max_dd returns),
       Win_Rate_pct = cell_round 1 (win_rate returns),
       Observations = length returns \<rparr>"

definition regime_returns :: "rframe \<Rightarrow> regime \<Rightarrow> string \<Rightarrow> real list" where
  \<comment> \<open>\<^verbatim>\<open>df[df['REGIME'] == regime][ret_col].dropna()\<close>\<close>
  "regime_returns df regime ticker =
     finite_values (map (\<lambda>r. RET r ticker) (filter (\<lambda>r. REGIME r = regime) (rrows df)))"

definition regime_performance :: "PerformanceAnalyzer \<Rightarrow> py_error + perf list" where
  "regime_performance self =
     (case returns_data self of
        None \<Rightarrow> Inl ValueError
      | Some df \<Rightarrow>
          Inr (concat (map (\<lambda>regime.
                 if length (filter (\<lambda>r. REGIME r = regime) (rrows df)) < 10 then []
                 else concat (map (\<lambda>ticker.
                        if ticker \<notin> set (ret_columns df) then []
                        else (let returns = regime_returns df regime ticker
                              in if length returns < 5 then []
                                 else [perf_record (pa_config self) regime ticker returns]))
                      (TICKERS (pa_config self))))
               [TIGHTENING, EASING, STRESS, NORMAL])))"

section \<open>Concrete inputs\<close>

definition small_config :: config where
  \<comment> \<open>\<^verbatim>\<open>Config\<close> with two-row windows, so that a handful of rows passes the warm-up\<close>
  "small_config = Config\<lparr> QUARTERLY_LOOKBACK := 2, VIX_LOOKBACK := 2 \<rparr>"

definition mk_obs :: "int \<Rightarrow> real \<Rightarrow> real \<Rightarrow> real \<Rightarrow> obs" where
  "mk_obs d ff ty vx =
     \<lparr> date = d, FED_FUNDS = Some ff, TREASURY_10Y = Some ty, VIX = Some vx,
       price = (\<lambda>t. Some 100) \<rparr>"

definition example_panel :: panel where
  \<comment> \<open>on the last row the policy rate has risen by a full point and the two-row
      volatility average is 27.5\<close>
  "example_panel =
     \<lparr> rows = [mk_obs 0 1 2 15, mk_obs 1 1 2 15, mk_obs 2 1 2 15, mk_obs 3 2 2 40],
       asset_columns = [''SPY'', ''TLT'', ''GLD''] \<rparr>"

definition shock_config :: config where
  \<comment> \<open>\<^verbatim>\<open>Config\<close> with a one-row shock lookback and a two-row forward horizon\<close>
  "shock_config = Config\<lparr> SHOCK_LOOKBACK := 1, SHOCK_HORIZON := 2 \<rparr>"

definition shock_panel :: panel where
  \<comment> \<open>the long yield rises by a full point on every row after the first\<close>
  "shock_panel =
     \<lparr> rows = [mk_obs 0 1 1 15, mk_obs 100 1 2 15, mk_obs 200 1 3 15, mk_obs 300 1 4 15,
               mk_obs 500 1 5 15],
       asset_columns = [''SPY'', ''TLT'', ''GLD''] \<rparr>"

definition mk_rrow :: "int \<Rightarrow> regime \<Rightarrow> cell \<Rightarrow> rrow" where
  \<comment> \<open>a row of a returns frame whose only return column is that of SPY\<close>
  "mk_rrow d g x =
     \<lparr> date = d, FED_FUNDS = Some 1, TREASURY_10Y = Some 2, VIX = Some 15,
       price = (\<lambda>t. Some 100),
       RATE_CHANGE_QTR = None, YIELD_CHANGE_QTR = None, VIX_MA = Some 15, REGIME = g,
       RET = (\<lambda>t. if t = ''SPY'' then x else None) \<rparr>"

definition flat_returns :: "real list" where
  \<comment> \<open>ten daily returns that sum to zero\<close>
  "flat_returns = [1 / 100, - 1 / 100, 1 / 100, - 1 / 100, 0, 1 / 100, - 1 / 100, 1 / 100, - 1 / 100, 0]"

definition frame_of :: "real list \<Rightarrow> rframe" where
  \<comment> \<open>a returns frame of NORMAL days with the given SPY returns\<close>
  "frame_of xs =
     \<lparr> rrows = map (\<lambda>(d, x). mk_rrow (int d) NORMAL (Some x)) (zip [0..<length xs] xs),
       rasset_columns = [''SPY''], ret_columns = [''SPY''] \<rparr>"

definition analyzer_of :: "real list \<Rightarrow> PerformanceAnalyzer" where
  "analyzer_of xs =
     \<lparr> pa_data = \<lparr> lrows = [], lasset_columns = [''SPY''], REGIME_SHIFT = None \<rparr>,
       pa_config = Config, returns_data = Some (frame_of xs) \<rparr>"

definition rising_returns :: "real list" where
  \<comment> \<open>ten daily returns with a positive mean\<close>
  "rising_returns = [2 / 100, 0, 2 / 100, 0, 2 / 100, 0, 2 / 100, 0, 2 / 100, 0]"

section \<open>The labelling loop\<close>

lemma length_loc_set [simp]: "length (loc_set_REGIME df d g) = length df"
  by (simp add: loc_set_REGIME_def)

lemma length_classify_step [simp]: "length (classify_step cfg i df) = length df"
  by (simp add: classify_step_def Let_def)

lemma classify_step_nth:
  assumes "j < length df"
  shows "classify_step cfg i df ! j =
           (if date (df ! j) = date (df ! i) then (df ! j)\<lparr>REGIME := row_rule cfg (df ! i)\<rparr>
            else df ! j)"
  using assms by (simp add: classify_step_def loc_set_REGIME_def Let_def row_rule_def)

lemma fold_classify_step:
  assumes "distinct (map date df)" and "b \<le> length df"
  shows "length (fold (classify_step cfg) [a..<b] df) = length df \<and>
         (\<forall>j < length df. fold (classify_step cfg) [a..<b] df ! j =
            (if a \<le> j \<and> j < b then (df ! j)\<lparr>REGIME := row_rule cfg (df ! j)\<rparr> else df ! j))"
  using assms(2)
proof (induction b)
  case 0
  then show ?case by simp
next
  case (Suc b)
  let ?f = "fold (classify_step cfg) [a..<b] df"
  from Suc have ih_len: "length ?f = length df"
    and ih: "\<And>j. j < length df \<Longrightarrow> ?f ! j =
            (if a \<le> j \<and> j < b then (df ! j)\<lparr>REGIME := row_rule cfg (df ! j)\<rparr> else df ! j)"
    by simp_all
  show ?case
  proof (cases "a \<le> b")
    case False
    then have "[a..<Suc b] = []" by simp
    moreover have "\<And>j. a \<le> j \<Longrightarrow> j < Suc b \<Longrightarrow> False" using False by arith
    ultimately show ?thesis by auto
  next
    case True
    then have unfold: "fold (classify_step cfg) [a..<Suc b] df = classify_step cfg b ?f"
      by simp
    have b_in: "b < length df" using Suc.prems by simp
    have fb: "?f ! b = df ! b" using ih [OF b_in] by simp
    have dates: "\<And>j. j < length df \<Longrightarrow> date (?f ! j) = date (df ! j)"
      using ih by simp
    have inj: "\<And>j. j < length df \<Longrightarrow> (date (df ! j) = date (df ! b)) = (j = b)"
      using assms(1) b_in by (auto simp: distinct_conv_nth)
    have "\<And>j. j < length df \<Longrightarrow> classify_step cfg b ?f ! j =
            (if a \<le> j \<and> j < Suc b then (df ! j)\<lparr>REGIME := row_rule cfg (df ! j)\<rparr> else df ! j)"
    proof -
      fix j assume j: "j < length df"
      show "classify_step cfg b ?f ! j =
            (if a \<le> j \<and> j < Suc b then (df ! j)\<lparr>REGIME := row_rule cfg (df ! j)\<rparr> else df ! j)"
      proof (cases "j = b")
        case True
        then show ?thesis
          using classify_step_nth [of b ?f cfg b] b_in ih_len fb \<open>a \<le> b\<close> by simp
      next
        case False
        then have "classify_step cfg b ?f ! j = ?f ! j"
          using classify_step_nth [of j ?f cfg b] j ih_len dates [OF j] dates [OF b_in] inj [OF j]
          by simp
        then show ?thesis using ih [OF j] False by auto
      qed
    qed
    then show ?thesis using unfold ih_len by simp
  qed
qed

lemma diff_nth: "i < length xs \<Longrightarrow> diff n xs ! i = trailing_change n xs i"
  by (simp add: diff_def trailing_change_def)

lemma length_derived_rows [simp]: "length (derived_rows n rs ma) = length rs"
  by (simp add: derived_rows_def)

lemma date_init_row [simp]: "date (init_row r rc yc ma) = date r"
  by (simp add: init_row_def)

lemma dates_derived_rows: "map date (derived_rows n rs ma) = map date rs"
  by (rule nth_equalityI) (simp_all add: derived_rows_def)

lemma classify_regimes_df_rows:
  assumes "unique_index p" and "1 \<le> VIX_LOOKBACK cfg"
  shows "classify_regimes_df cfg p =
           Inr \<lparr> lrows = map (labelled_row cfg (rows p)) [0..<length (rows p)],
                 lasset_columns = asset_columns p, REGIME_SHIFT = None \<rparr>"
proof -
  let ?n = "QUARTERLY_LOOKBACK cfg"
  let ?rs = "rows p"
  let ?ma = "map (\<lambda>i. window_mean (drop (Suc i - VIX_LOOKBACK cfg) (take (Suc i) (map VIX ?rs))))
               [0..<length (map VIX ?rs)]"
  let ?D = "derived_rows ?n ?rs ?ma"
  have roll: "rolling_mean (VIX_LOOKBACK cfg) (map VIX ?rs) = Inr ?ma"
    using assms(2) by (simp add: rolling_mean_def)
  have dist: "distinct (map date ?D)"
    using assms(1) by (simp add: dates_derived_rows unique_index_def)
  have D_nth: "\<And>j. j < length ?rs \<Longrightarrow> ?D ! j =
      init_row (?rs ! j) (trailing_change ?n (map FED_FUNDS ?rs) j)
        (trailing_change ?n (map TREASURY_10Y ?rs) j) (trailing_vix_mean cfg ?rs j)"
    by (simp add: derived_rows_def diff_nth trailing_vix_mean_def)
  from fold_classify_step [OF dist, of "length ?D" cfg ?n]
  have len: "length (fold (classify_step cfg) [?n..<length ?D] ?D) = length ?rs"
    and nth: "\<And>j. j < length ?rs \<Longrightarrow> fold (classify_step cfg) [?n..<length ?D] ?D ! j =
        (if ?n \<le> j then (?D ! j)\<lparr>REGIME := row_rule cfg (?D ! j)\<rparr> else ?D ! j)"
    by simp_all
  have "fold (classify_step cfg) [?n..<length ?D] ?D = map (labelled_row cfg ?rs) [0..<length ?rs]"
  proof (rule nth_equalityI)
    show "length (fold (classify_step cfg) [?n..<length ?D] ?D) =
          length (map (labelled_row cfg ?rs) [0..<length ?rs])"
      using len by simp
  next
    fix j assume "j < length (fold (classify_step cfg) [?n..<length ?D] ?D)"
    then have j: "j < length ?rs" using len by simp
    show "fold (classify_step cfg) [?n..<length ?D] ?D ! j =
          map (labelled_row cfg ?rs) [0..<length ?rs] ! j"
      using j nth [OF j] D_nth [OF j]
      by (simp add: labelled_row_def row_rule_def init_row_def Let_def)
  qed
  then show ?thesis
    by (simp add: classify_regimes_df_def roll Let_def)
qed

lemma classify_regimes_df_error:
  "VIX_LOOKBACK cfg < 1 \<Longrightarrow> classify_regimes_df cfg p = Inl ValueError"
  by (simp add: classify_regimes_df_def rolling_mean_def)

lemma increasing_unique: "increasing_index p \<Longrightarrow> unique_index p"
  by (simp add: increasing_index_def unique_index_def strict_sorted_iff)

lemma labelled_row_take:
  assumes "i < k" and "i < length rs"
  shows "labelled_row cfg (take k rs) i = labelled_row cfg rs i"
proof -
  have sub: "\<And>n. i - n < k \<and> i - n < length rs" using assms by arith
  have tc: "\<And>f n. trailing_change n (map f (take k rs)) i = trailing_change n (map f rs) i"
    using assms sub by (simp add: trailing_change_def)
  have "take (Suc i) (map VIX (take k rs)) = take (Suc i) (map VIX rs)"
    using assms by (simp add: take_map min_def)
  then have ma: "trailing_vix_mean cfg (take k rs) i = trailing_vix_mean cfg rs i"
    by (simp add: trailing_vix_mean_def)
  show ?thesis
    using assms by (simp add: labelled_row_def tc ma)
qed

lemma labelled_rows_take:
  "map (labelled_row cfg (take k rs)) [0..<length (take k rs)] =
   take k (map (labelled_row cfg rs) [0..<length rs])"
  by (rule nth_equalityI) (simp_all add: labelled_row_take)

lemma filter_upto_date:
  assumes "sorted_wrt (<) (map date rs)" and "i < length rs"
  shows "filter (\<lambda>r. date r \<le> date (rs ! i)) rs = take (Suc i) rs"
proof -
  have mono: "\<And>a b. a < b \<Longrightarrow> b < length rs \<Longrightarrow> date (rs ! a) < date (rs ! b)"
    using assms(1) by (simp add: sorted_wrt_iff_nth_less)
  have early: "\<forall>r \<in> set (take (Suc i) rs). date r \<le> date (rs ! i)"
  proof
    fix r assume "r \<in> set (take (Suc i) rs)"
    then obtain a where a: "a < Suc i" "a < length rs" "r = rs ! a"
      by (auto simp: in_set_conv_nth)
    show "date r \<le> date (rs ! i)"
    proof (cases "a = i")
      case True
      with a show ?thesis by simp
    next
      case False
      with a have "a < i" by simp
      from mono [OF this assms(2)] a show ?thesis by simp
    qed
  qed
  have late: "\<forall>r \<in> set (drop (Suc i) rs). \<not> date r \<le> date (rs ! i)"
  proof
    fix r assume "r \<in> set (drop (Suc i) rs)"
    then obtain a where a: "a < length rs - Suc i" "r = rs ! (Suc i + a)"
      by (auto simp: in_set_conv_nth)
    then have "date (rs ! i) < date (rs ! (Suc i + a))"
      using mono [of i "Suc i + a"] by simp
    with a show "\<not> date r \<le> date (rs ! i)" by simp
  qed
  have "filter (\<lambda>r. date r \<le> date (rs ! i)) (take (Suc i) rs @ drop (Suc i) rs) = take (Suc i) rs"
    using early late by (simp add: filter_empty_conv del: append_take_drop_id)
  then show ?thesis by simp
qed

section \<open>Properties of the regime classification\<close>

text \<open>
  C8 (warm-up default label). On a panel with unique dates, \<^verbatim>\<open>classify_regimes\<close> returns a
  frame with one row per panel row, and every row whose position is below
  \<^verbatim>\<open>QUARTERLY_LOOKBACK\<close> carries the label NORMAL.
\<close>

theorem warmup_rows_NORMAL:
  assumes "unique_index p" and "1 \<le> VIX_LOOKBACK cfg"
    and "i < QUARTERLY_LOOKBACK cfg" and "i < length (rows p)"
  shows "\<exists>df. classify_regimes_df cfg p = Inr df \<and> length (lrows df) = length (rows p) \<and>
              date (lrows df ! i) = date (rows p ! i) \<and> REGIME (lrows df ! i) = NORMAL"
  using assms
  by (simp add: classify_regimes_df_rows labelled_row_def init_row_def Let_def)

theorem warmup_rows_NORMAL_witness:
  "unique_index example_panel \<and> 1 \<le> VIX_LOOKBACK small_config \<and>
   1 < QUARTERLY_LOOKBACK small_config \<and> 1 < length (rows example_panel) \<and>
   (\<exists>df. classify_regimes_df small_config example_panel = Inr df \<and>
         length (lrows df) = length (rows example_panel) \<and>
         date (lrows df ! 1) = date (rows example_panel ! 1) \<and> REGIME (lrows df ! 1) = NORMAL)"
proof -
  have h: "unique_index example_panel" "1 \<le> VIX_LOOKBACK small_config"
    "1 < QUARTERLY_LOOKBACK small_config" "1 < length (rows example_panel)"
    by (simp_all add: unique_index_def example_panel_def small_config_def Config_def mk_obs_def)
  from warmup_rows_NORMAL [OF h] h show ?thesis by blast
qed

text \<open>
  C2 (regime priority). On a panel with unique dates, every row at or after the lookback
  horizon whose trailing volatility average exceeds \<^verbatim>\<open>VIX_STRESS_THRESHOLD\<close> is labelled
  STRESS, whatever the trailing rate and yield changes of that row are.
\<close>

theorem stress_overrides_rate_moves:
  assumes "unique_index p" and "1 \<le> VIX_LOOKBACK cfg"
    and "QUARTERLY_LOOKBACK cfg \<le> i" and "i < length (rows p)"
    and "cell_gt (trailing_vix_mean cfg (rows p) i) (VIX_STRESS_THRESHOLD cfg)"
  shows "\<exists>df. classify_regimes_df cfg p = Inr df \<and>
              VIX_MA (lrows df ! i) = trailing_vix_mean cfg (rows p) i \<and>
              RATE_CHANGE_QTR (lrows df ! i) =
                trailing_change (QUARTERLY_LOOKBACK cfg) (map FED_FUNDS (rows p)) i \<and>
              YIELD_CHANGE_QTR (lrows df ! i) =
                trailing_change (QUARTERLY_LOOKBACK cfg) (map TREASURY_10Y (rows p)) i \<and>
              REGIME (lrows df ! i) = STRESS"
proof -
  have "notna (trailing_vix_mean cfg (rows p) i)"
    using assms(5) by (auto simp: notna_def cell_gt_def split: option.splits)
  then show ?thesis
    using assms
    by (simp add: classify_regimes_df_rows labelled_row_def init_row_def Let_def rule_regime_def)
qed

theorem stress_overrides_rate_moves_witness:
  "unique_index example_panel \<and> 1 \<le> VIX_LOOKBACK small_config \<and>
   QUARTERLY_LOOKBACK small_config \<le> 3 \<and> 3 < length (rows example_panel) \<and>
   cell_gt (trailing_vix_mean small_config (rows example_panel) 3)
     (VIX_STRESS_THRESHOLD small_config) \<and>
   cell_gt (trailing_change (QUARTERLY_LOOKBACK small_config)
              (map FED_FUNDS (rows example_panel)) 3) (RATE_CHANGE_THRESHOLD small_config) \<and>
   (\<exists>df. classify_regimes_df small_config example_panel = Inr df \<and>
         RATE_CHANGE_QTR (lrows df ! 3) = Some 1 \<and> REGIME (lrows df ! 3) = STRESS)"
proof -
  have h: "unique_index example_panel" "1 \<le> VIX_LOOKBACK small_config"
    "QUARTERLY_LOOKBACK small_config \<le> 3" "3 < length (rows example_panel)"
    by (simp_all add: unique_index_def example_panel_def small_config_def Config_def mk_obs_def)
  have v: "cell_gt (trailing_vix_mean small_config (rows example_panel) 3)
             (VIX_STRESS_THRESHOLD small_config)"
    by (simp add: trailing_vix_mean_def window_mean_def cell_gt_def example_panel_def
          small_config_def Config_def mk_obs_def)
  have r: "trailing_change (QUARTERLY_LOOKBACK small_config)
              (map FED_FUNDS (rows example_panel)) 3 = Some 1"
    by (simp add: trailing_change_def cell_sub_def example_panel_def small_config_def
          Config_def mk_obs_def)
  have t: "cell_gt (Some 1) (RATE_CHANGE_THRESHOLD small_config)"
    by (simp add: cell_gt_def small_config_def Config_def)
  from stress_overrides_rate_moves [OF h v] h v r t show ?thesis by auto
qed

text \<open>
  C1 (no lookahead). On a panel with strictly increasing dates, for every date \<open>t\<close> of the
  panel, classifying the panel truncated to the dates up to \<open>t\<close> returns exactly the rows
  up to \<open>t\<close> of the classification of the full panel: the same dates, derived columns and
  labels. The label of a date is therefore determined by the rows up to that date.
\<close>

theorem classify_regimes_no_lookahead:
  assumes "increasing_index p" and "1 \<le> VIX_LOOKBACK cfg"
    and "i < length (rows p)" and "t = date (rows p ! i)"
  shows "\<exists>full trunc. classify_regimes_df cfg p = Inr full \<and>
           classify_regimes_df cfg (truncate_to t p) = Inr trunc \<and>
           lrows trunc = take (Suc i) (lrows full) \<and>
           (\<forall>j \<le> i. date (lrows trunc ! j) = date (rows p ! j) \<and>
                     REGIME (lrows trunc ! j) = REGIME (lrows full ! j))"
proof -
  have u: "unique_index p" using assms(1) by (rule increasing_unique)
  have rows_t: "rows (truncate_to t p) = take (Suc i) (rows p)"
    using assms by (simp add: truncate_to_def increasing_index_def filter_upto_date)
  have "distinct (map date (take (Suc i) (rows p)))"
    using u by (simp add: unique_index_def take_map [symmetric] distinct_take)
  then have ut: "unique_index (truncate_to t p)"
    by (simp add: unique_index_def rows_t)
  let ?full = "\<lparr> lrows = map (labelled_row cfg (rows p)) [0..<length (rows p)],
                 lasset_columns = asset_columns p, REGIME_SHIFT = None \<rparr>"
  let ?trunc = "\<lparr> lrows = take (Suc i) (map (labelled_row cfg (rows p)) [0..<length (rows p)]),
                  lasset_columns = asset_columns p, REGIME_SHIFT = None \<rparr>"
  have f: "classify_regimes_df cfg p = Inr ?full"
    using u assms(2) by (rule classify_regimes_df_rows)
  have "classify_regimes_df cfg (truncate_to t p) =
          Inr \<lparr> lrows = map (labelled_row cfg (rows (truncate_to t p)))
                          [0..<length (rows (truncate_to t p))],
                lasset_columns = asset_columns (truncate_to t p), REGIME_SHIFT = None \<rparr>"
    using ut assms(2) by (rule classify_regimes_df_rows)
  then have tr: "classify_regimes_df cfg (truncate_to t p) = Inr ?trunc"
    unfolding rows_t labelled_rows_take by (simp add: truncate_to_def)
  have "\<forall>j \<le> i. date (lrows ?trunc ! j) = date (rows p ! j) \<and>
                 REGIME (lrows ?trunc ! j) = REGIME (lrows ?full ! j)"
    using assms(3) by (simp add: labelled_row_def init_row_def Let_def)
  with f tr show ?thesis by auto
qed

theorem classify_regimes_no_lookahead_witness:
  "increasing_index example_panel \<and> 1 \<le> VIX_LOOKBACK small_config \<and>
   2 < length (rows example_panel) \<and> 2 = date (rows example_panel ! 2) \<and>
   length (rows (truncate_to 2 example_panel)) = 3 \<and>
   (\<exists>full trunc. classify_regimes_df small_config example_panel = Inr full \<and>
           classify_regimes_df small_config (truncate_to 2 example_panel) = Inr trunc \<and>
           lrows trunc = take 3 (lrows full) \<and>
           (\<forall>j \<le> 2. date (lrows trunc ! j) = date (rows example_panel ! j) \<and>
                     REGIME (lrows trunc ! j) = REGIME (lrows full ! j)))"
proof -
  have h: "increasing_index example_panel" "1 \<le> VIX_LOOKBACK small_config"
    "2 < length (rows example_panel)" "2 = date (rows example_panel ! 2)"
    by (simp_all add: increasing_index_def example_panel_def small_config_def Config_def mk_obs_def)
  have l: "length (rows (truncate_to 2 example_panel)) = 3"
    by (simp add: truncate_to_def example_panel_def mk_obs_def)
  from classify_regimes_no_lookahead [OF h] h l show ?thesis
    by (simp add: numeral_3_eq_3)
qed

section \<open>Properties of the transition scan\<close>

lemma shift1_Cons: "\<exists>rest. shift1 (x # xs) = None # rest \<and> length rest = length xs"
  by (simp add: shift1_def map_upt_Suc del: upt_Suc)

lemma regime_shift_Cons: "\<exists>rest. regime_shift (g # gs) = True # rest \<and> length rest = length gs"
proof -
  obtain rest where r: "shift1 (g # gs) = None # rest" "length rest = length gs"
    using shift1_Cons [of g gs] by auto
  then show ?thesis by (simp add: regime_shift_def)
qed

text \<open>
  C10 (the first row is a transition). When \<^verbatim>\<open>self.regime_data\<close> is a frame with at least
  one row, \<^verbatim>\<open>identify_regime_transitions\<close> returns a summary that is not empty; its first
  row is the first row of the frame (same date and label) and its previous regime is
  undefined.
\<close>

theorem first_row_is_a_transition:
  assumes "regime_data self = Some r" and "r < length h" and "lrows (h ! r) \<noteq> []"
  shows "\<exists>ts h'. identify_regime_transitions self h = Inr (ts, h') \<and> ts \<noteq> [] \<and>
           t_date (hd ts) = date (hd (lrows (h ! r))) \<and>
           t_REGIME (hd ts) = REGIME (hd (lrows (h ! r))) \<and>
           PREV_REGIME (hd ts) = None"
proof -
  obtain x xs where rows: "lrows (h ! r) = x # xs"
    using assms(3) by (cases "lrows (h ! r)") auto
  obtain rest where s: "shift1 (REGIME x # map REGIME xs) = None # rest"
    using shift1_Cons [of "REGIME x" "map REGIME xs"] by auto
  obtain m where m: "regime_shift (REGIME x # map REGIME xs) = True # m"
    using regime_shift_Cons [of "REGIME x" "map REGIME xs"] by auto
  show ?thesis
    using assms(1,2) by (simp add: identify_regime_transitions_def rows s m transition_row_def)
qed

theorem first_row_is_a_transition_witness:
  "(\<exists>r h. classify_regimes (RegimeClassifier_init example_panel small_config) [] =
            Inr (r, (RegimeClassifier_init example_panel small_config)\<lparr>regime_data := Some r\<rparr>, h) \<and>
          r < length h \<and> lrows (h ! r) \<noteq> [] \<and>
          (\<exists>ts h'. identify_regime_transitions
                     ((RegimeClassifier_init example_panel small_config)\<lparr>regime_data := Some r\<rparr>) h =
                     Inr (ts, h') \<and> ts \<noteq> [] \<and> t_date (hd ts) = 0 \<and>
                   t_REGIME (hd ts) = NORMAL \<and> PREV_REGIME (hd ts) = None))"
proof -
  let ?c = "RegimeClassifier_init example_panel small_config"
  have u: "unique_index example_panel" "1 \<le> VIX_LOOKBACK small_config"
    by (simp_all add: unique_index_def example_panel_def small_config_def Config_def mk_obs_def)
  let ?df = "\<lparr> lrows = map (labelled_row small_config (rows example_panel))
                           [0..<length (rows example_panel)],
               lasset_columns = asset_columns example_panel, REGIME_SHIFT = None \<rparr>"
  have c: "classify_regimes ?c [] = Inr (0, ?c\<lparr>regime_data := Some 0\<rparr>, [?df])"
    by (simp add: classify_regimes_def RegimeClassifier_init_def classify_regimes_df_rows [OF u])
  have len: "length (rows example_panel) = 4"
    by (simp add: example_panel_def)
  have ne: "lrows ([?df] ! 0) \<noteq> []"
    by (simp add: len)
  have hd0: "date (hd (lrows ([?df] ! 0))) = 0" "REGIME (hd (lrows ([?df] ! 0))) = NORMAL"
    by (simp_all add: len upt_rec [of 0] labelled_row_def init_row_def Let_def
          example_panel_def mk_obs_def small_config_def)
  have a: "regime_data (?c\<lparr>regime_data := Some 0\<rparr>) = Some 0" "(0::nat) < length [?df]"
    by simp_all
  from first_row_is_a_transition [OF a ne] hd0 c ne show ?thesis
    by auto
qed

lemma transitions_write_stored_frame:
  assumes "classify_regimes self h = Inr (r, self', h1)"
    and "identify_regime_transitions self' h1 = Inr (ts, h2)"
  shows "REGIME_SHIFT (h1 ! r) = None \<and>
         REGIME_SHIFT (h2 ! r) = Some (regime_shift (map REGIME (lrows (h1 ! r)))) \<and>
         h2 ! r \<noteq> h1 ! r"
proof -
  from assms(1) obtain df where df: "classify_regimes_df (config self) (data self) = Inr df"
    and r: "r = length h" and s: "self' = self\<lparr>regime_data := Some r\<rparr>" and h1: "h1 = h @ [df]"
    by (auto simp: classify_regimes_def Let_def split: sum.splits)
  from df have none: "REGIME_SHIFT df = None"
    by (auto simp: classify_regimes_df_def Let_def split: sum.splits)
  from assms(2) have h2: "h2 = h1[r := (h1 ! r)\<lparr>REGIME_SHIFT := Some (regime_shift (map REGIME (lrows (h1 ! r))))\<rparr>]"
    by (simp add: identify_regime_transitions_def s Let_def)
  have at: "h1 ! r = df" by (simp add: h1 r)
  have "h2 ! r = df\<lparr>REGIME_SHIFT := Some (regime_shift (map REGIME (lrows df)))\<rparr>"
    by (simp add: h2 at) (simp add: h1 r)
  then show ?thesis using none at
    by (cases df) auto
qed

text \<open>
  C9 (no mutation of a frame handed downstream), evaluated on the code: the frame returned
  by \<^verbatim>\<open>classify_regimes\<close> has no \<^verbatim>\<open>REGIME_SHIFT\<close> column; after
  \<^verbatim>\<open>identify_regime_transitions\<close> the same object has one.
\<close>

theorem transitions_mutate_returned_frame:
  "\<exists>r c1 h1 ts h2.
      classify_regimes (RegimeClassifier_init example_panel small_config) [] = Inr (r, c1, h1) \<and>
      identify_regime_transitions c1 h1 = Inr (ts, h2) \<and>
      map REGIME (lrows (h1 ! r)) = [NORMAL, NORMAL, NORMAL, STRESS] \<and>
      REGIME_SHIFT (h1 ! r) = None \<and>
      REGIME_SHIFT (h2 ! r) = Some [True, False, False, True] \<and>
      h2 ! r \<noteq> h1 ! r"
proof -
  let ?c = "RegimeClassifier_init example_panel small_config"
  have u: "unique_index example_panel" "1 \<le> VIX_LOOKBACK small_config"
    by (simp_all add: unique_index_def example_panel_def small_config_def Config_def mk_obs_def)
  let ?df = "\<lparr> lrows = map (labelled_row small_config (rows example_panel))
                           [0..<length (rows example_panel)],
               lasset_columns = asset_columns example_panel, REGIME_SHIFT = None \<rparr>"
  have c: "classify_regimes ?c [] = Inr (0, ?c\<lparr>regime_data := Some 0\<rparr>, [?df])"
    by (simp add: classify_regimes_def RegimeClassifier_init_def classify_regimes_df_rows [OF u])
  have labels: "map REGIME (lrows ?df) = [NORMAL, NORMAL, NORMAL, STRESS]"
    by (simp add: example_panel_def upt_rec [of 0] upt_rec [of 1] upt_rec [of 2] upt_rec [of 3]
          labelled_row_def init_row_def Let_def
          mk_obs_def small_config_def Config_def rule_regime_def trailing_change_def
          trailing_vix_mean_def window_mean_def cell_sub_def cell_gt_def cell_lt_def notna_def)
  have shift: "regime_shift [NORMAL, NORMAL, NORMAL, STRESS] = [True, False, False, True]"
    by (simp add: regime_shift_def shift1_def upt_rec [of 0] upt_rec [of 1] upt_rec [of 2]
          upt_rec [of 3])
  obtain ts h2 where t: "identify_regime_transitions (?c\<lparr>regime_data := Some 0\<rparr>) [?df] = Inr (ts, h2)"
    by (simp add: identify_regime_transitions_def Let_def)
  from transitions_write_stored_frame [OF c t] labels shift
  have "REGIME_SHIFT ([?df] ! 0) = None \<and> REGIME_SHIFT (h2 ! 0) = Some [True, False, False, True] \<and>
        h2 ! 0 \<noteq> [?df] ! 0"
    by simp
  with c t labels show ?thesis
    by (intro exI [of _ 0] exI [of _ "?c\<lparr>regime_data := Some 0\<rparr>"] exI [of _ "[?df]"]
          exI [of _ ts] exI [of _ h2]) simp
qed

section \<open>Properties of the shock detection\<close>

lemma filter_shocks_acc:
  "filter_shocks ds acc lst = acc @ filter_shocks ds [] lst"
proof (induction ds arbitrary: acc lst)
  case Nil
  then show ?case by simp
next
  case (Cons d ds)
  show ?case
  proof (cases "case lst of None \<Rightarrow> True | Some l \<Rightarrow> d - l > 180")
    case True
    have "filter_shocks (d # ds) acc lst = (acc @ [d]) @ filter_shocks ds [] (Some d)"
      using True Cons.IH [of "acc @ [d]" "Some d"] by simp
    moreover have "filter_shocks (d # ds) [] lst = [d] @ filter_shocks ds [] (Some d)"
      using True Cons.IH [of "[d]" "Some d"] by simp
    ultimately show ?thesis by simp
  next
    case False
    then show ?thesis using Cons.IH [of acc lst] Cons.IH [of "[]" lst] by simp
  qed
qed

lemma filter_shocks_Cons:
  "filter_shocks (d # ds) [] lst =
     (if (case lst of None \<Rightarrow> True | Some l \<Rightarrow> d - l > 180)
      then d # filter_shocks ds [] (Some d) else filter_shocks ds [] lst)"
  using filter_shocks_acc [of ds "[d]" "Some d"] by simp

lemma filter_shocks_subset: "set (filter_shocks ds [] lst) \<subseteq> set ds"
proof (induction ds arbitrary: lst)
  case Nil
  then show ?case by simp
next
  case (Cons d ds)
  show ?case
    using Cons.IH [of "Some d"] Cons.IH [of lst]
    by (auto simp: filter_shocks_Cons simp del: filter_shocks.simps)
qed

lemma filter_shocks_after_last:
  "e \<in> set (filter_shocks ds [] (Some l)) \<Longrightarrow> e - l > 180"
proof (induction ds arbitrary: l)
  case Nil
  then show ?case by simp
next
  case (Cons d ds)
  show ?case
  proof (cases "d - l > 180")
    case True
    with Cons.prems have "e = d \<or> e \<in> set (filter_shocks ds [] (Some d))"
      by (simp add: filter_shocks_Cons del: filter_shocks.simps)
    then show ?thesis
    proof
      assume "e = d" with True show ?thesis by simp
    next
      assume "e \<in> set (filter_shocks ds [] (Some d))"
      from Cons.IH [OF this] True show ?thesis by simp
    qed
  next
    case False
    with Cons.prems have "e \<in> set (filter_shocks ds [] (Some l))"
      by (simp add: filter_shocks_Cons del: filter_shocks.simps)
    from Cons.IH [OF this] show ?thesis .
  qed
qed

lemma filter_shocks_spaced:
  "sorted_wrt (\<lambda>a b. b - a > 180) (filter_shocks ds [] lst)"
proof (induction ds arbitrary: lst)
  case Nil
  then show ?case by simp
next
  case (Cons d ds)
  show ?case
    using Cons.IH [of "Some d"] Cons.IH [of lst] filter_shocks_after_last [of _ ds d]
    by (auto simp: filter_shocks_Cons simp del: filter_shocks.simps)
qed

lemma filter_shocks_cover:
  assumes "sorted ds" and "\<And>l. lst = Some l \<Longrightarrow> \<forall>d \<in> set ds. l \<le> d" and "c \<in> set ds"
  shows "\<exists>a \<in> set (filter_shocks ds [] lst) \<union> set_option lst. a \<le> c \<and> c - a \<le> 180"
  using assms
proof (induction ds arbitrary: lst)
  case Nil
  then show ?case by simp
next
  case (Cons d ds)
  have sorted_ds: "sorted ds" and d_least: "\<forall>x \<in> set ds. d \<le> x"
    using Cons.prems(1) by simp_all
  show ?case
  proof (cases "case lst of None \<Rightarrow> True | Some l \<Rightarrow> d - l > 180")
    case True
    then have unfold: "filter_shocks (d # ds) [] lst = d # filter_shocks ds [] (Some d)"
      by (simp add: filter_shocks_Cons del: filter_shocks.simps)
    show ?thesis
    proof (cases "c = d")
      case True
      then show ?thesis using unfold by simp
    next
      case False
      with Cons.prems(3) have "c \<in> set ds" by simp
      from Cons.IH [OF sorted_ds _ this, of "Some d"] d_least
      show ?thesis using unfold by auto
    qed
  next
    case False
    then obtain l where l: "lst = Some l" "d - l \<le> 180"
      by (cases lst) auto
    have unfold: "filter_shocks (d # ds) [] lst = filter_shocks ds [] lst"
      using False by (simp add: filter_shocks_Cons del: filter_shocks.simps)
    show ?thesis
    proof (cases "c = d")
      case True
      then show ?thesis using l Cons.prems(2) [OF l(1)] by simp
    next
      case False
      with Cons.prems(3) have "c \<in> set ds" by simp
      from Cons.IH [OF sorted_ds _ this, of lst] Cons.prems(2)
      show ?thesis using unfold by auto
    qed
  qed
qed

lemma length_diff [simp]: "length (diff n xs) = length xs"
  by (simp add: diff_def)

lemma sorted_shock_candidates:
  assumes "sorted_index p"
  shows "sorted (shock_candidates cfg p)"
proof -
  let ?mask = "map (\<lambda>c. cell_gt c (SHOCK_YIELD_THRESHOLD cfg))
                 (diff (SHOCK_LOOKBACK cfg) (map TREASURY_10Y (rows p)))"
  have fst_zip: "map fst (zip (rows p) ?mask) = rows p"
    by (rule map_fst_zip) simp
  have "map (\<lambda>(r, m). date r) (zip (rows p) ?mask) = map (date \<circ> fst) (zip (rows p) ?mask)"
    by (rule map_cong) auto
  also have "\<dots> = map date (map fst (zip (rows p) ?mask))"
    by (simp only: map_map)
  also have "\<dots> = map date (rows p)"
    by (simp only: fst_zip)
  finally have "sorted (map (\<lambda>(r, m). date r) (zip (rows p) ?mask))"
    using assms by (simp add: sorted_index_def)
  then have "sorted (map (\<lambda>(r, m). date r) (filter snd (zip (rows p) ?mask)))"
    by (rule sorted_filter)
  then show ?thesis
    by (simp add: shock_candidates_def Let_def)
qed

text \<open>
  C3 (minimum shock spacing), as the code has it. On every panel, the events
  \<^verbatim>\<open>identify_shocks\<close> returns are candidates, any two of them at different positions of the
  list are more than 180 days apart, and the first candidate is accepted. On a panel in
  chronological order, moreover, every candidate has an accepted event at most 180 days
  before it (itself, when it is accepted), and the earliest candidate wins in every cluster
  that starts after a quiet spell: for a set \<open>K\<close> of candidates that all lie within 180
  days after its earliest member \<open>m\<close>, with no candidate in the 180 days before \<open>m\<close>, the
  event \<open>m\<close> is accepted and no other member of \<open>K\<close> is.
\<close>

theorem shocks_spaced_earliest_wins:
  assumes "identify_shocks self = (es, self')"
    and "cs = shock_candidates (sa_config self) (sa_data self)"
  shows "(\<forall>i j. i < length es \<and> j < length es \<and> i \<noteq> j \<longrightarrow> \<bar>es ! i - es ! j\<bar> > 180) \<and>
         set es \<subseteq> set cs \<and>
         (cs \<noteq> [] \<longrightarrow> es \<noteq> [] \<and> hd es = hd cs) \<and>
         (sorted_index (sa_data self) \<longrightarrow>
            (\<forall>c \<in> set cs. \<exists>a \<in> set es. a \<le> c \<and> c - a \<le> 180) \<and>
            (\<forall>K m. K \<subseteq> set cs \<and> m \<in> K \<and> (\<forall>c \<in> K. m \<le> c \<and> c - m \<le> 180) \<and>
                   (\<forall>c' \<in> set cs. c' < m \<longrightarrow> m - c' > 180) \<longrightarrow>
                   m \<in> set es \<and> (\<forall>c \<in> K. c \<in> set es \<longrightarrow> c = m))) \<and>
         shock_dates self' = Some es"
proof -
  have es: "es = filter_shocks cs [] None" and self': "self' = self\<lparr>shock_dates := Some es\<rparr>"
    using assms by (auto simp: identify_shocks_def Let_def)
  have spaced: "sorted_wrt (\<lambda>a b. b - a > 180) es"
    unfolding es by (rule filter_shocks_spaced)
  have pair: "\<forall>i j. i < length es \<and> j < length es \<and> i \<noteq> j \<longrightarrow> \<bar>es ! i - es ! j\<bar> > 180"
  proof (intro allI impI)
    fix i j assume a: "i < length es \<and> j < length es \<and> i \<noteq> j"
    then consider "i < j" | "j < i" by arith
    then show "\<bar>es ! i - es ! j\<bar> > 180"
    proof cases
      case 1
      with a spaced have "es ! j - es ! i > 180" by (simp add: sorted_wrt_iff_nth_less)
      then show ?thesis by simp
    next
      case 2
      with a spaced have "es ! i - es ! j > 180" by (simp add: sorted_wrt_iff_nth_less)
      then show ?thesis by simp
    qed
  qed
  have sub: "set es \<subseteq> set cs"
    unfolding es by (rule filter_shocks_subset)
  have first: "cs \<noteq> [] \<longrightarrow> es \<noteq> [] \<and> hd es = hd cs"
    unfolding es by (cases cs) (simp_all add: filter_shocks_Cons del: filter_shocks.simps)
  have chrono: "sorted_index (sa_data self) \<longrightarrow>
            (\<forall>c \<in> set cs. \<exists>a \<in> set es. a \<le> c \<and> c - a \<le> 180) \<and>
            (\<forall>K m. K \<subseteq> set cs \<and> m \<in> K \<and> (\<forall>c \<in> K. m \<le> c \<and> c - m \<le> 180) \<and>
                   (\<forall>c' \<in> set cs. c' < m \<longrightarrow> m - c' > 180) \<longrightarrow>
                   m \<in> set es \<and> (\<forall>c \<in> K. c \<in> set es \<longrightarrow> c = m))"
  proof
    assume "sorted_index (sa_data self)"
    then have sorted_cs: "sorted cs"
      using assms(2) by (simp add: sorted_shock_candidates)
    have cover: "\<forall>c \<in> set cs. \<exists>a \<in> set es. a \<le> c \<and> c - a \<le> 180"
    proof
      fix c assume "c \<in> set cs"
      from filter_shocks_cover [OF sorted_cs _ this, of None]
      show "\<exists>a \<in> set es. a \<le> c \<and> c - a \<le> 180" by (simp add: es)
    qed
    have earliest: "\<forall>c \<in> set cs. (\<forall>c' \<in> set cs. c' < c \<longrightarrow> c - c' > 180) \<longrightarrow> c \<in> set es"
    proof (intro ballI impI)
      fix c assume c: "c \<in> set cs" and alone: "\<forall>c' \<in> set cs. c' < c \<longrightarrow> c - c' > 180"
      from cover c obtain a where a: "a \<in> set es" "a \<le> c" "c - a \<le> 180" by blast
      have "a = c"
      proof (rule ccontr)
        assume "a \<noteq> c"
        with a have "a < c" by simp
        moreover have "a \<in> set cs" using a sub by blast
        ultimately have "c - a > 180" using alone by blast
        with a show False by simp
      qed
      with a show "c \<in> set es" by simp
    qed
    have cluster: "\<forall>K m. K \<subseteq> set cs \<and> m \<in> K \<and> (\<forall>c \<in> K. m \<le> c \<and> c - m \<le> 180) \<and>
                  (\<forall>c' \<in> set cs. c' < m \<longrightarrow> m - c' > 180) \<longrightarrow>
                  m \<in> set es \<and> (\<forall>c \<in> K. c \<in> set es \<longrightarrow> c = m)"
    proof (intro allI impI)
      fix K m
      assume k: "K \<subseteq> set cs \<and> m \<in> K \<and> (\<forall>c \<in> K. m \<le> c \<and> c - m \<le> 180) \<and>
                  (\<forall>c' \<in> set cs. c' < m \<longrightarrow> m - c' > 180)"
      then have m_in: "m \<in> set es" using earliest by blast
      have "\<forall>c \<in> K. c \<in> set es \<longrightarrow> c = m"
      proof (intro ballI impI)
        fix c assume c: "c \<in> K" "c \<in> set es"
        show "c = m"
        proof (rule ccontr)
          assume ne: "c \<noteq> m"
          from c(2) obtain i where i: "i < length es" "es ! i = c" by (auto simp: in_set_conv_nth)
          from m_in obtain j where j: "j < length es" "es ! j = m" by (auto simp: in_set_conv_nth)
          from i j ne have "i \<noteq> j" by auto
          with pair i j have "\<bar>c - m\<bar> > 180" by blast
          moreover from k c(1) have "m \<le> c \<and> c - m \<le> 180" by blast
          ultimately show False by simp
        qed
      qed
      with m_in show "m \<in> set es \<and> (\<forall>c \<in> K. c \<in> set es \<longrightarrow> c = m)" ..
    qed
    from cover cluster show "(\<forall>c \<in> set cs. \<exists>a \<in> set es. a \<le> c \<and> c - a \<le> 180) \<and>
            (\<forall>K m. K \<subseteq> set cs \<and> m \<in> K \<and> (\<forall>c \<in> K. m \<le> c \<and> c - m \<le> 180) \<and>
                   (\<forall>c' \<in> set cs. c' < m \<longrightarrow> m - c' > 180) \<longrightarrow>
                   m \<in> set es \<and> (\<forall>c \<in> K. c \<in> set es \<longrightarrow> c = m))" ..
  qed
  have stored: "shock_dates self' = Some es" by (simp add: self')
  from pair sub first chrono stored show ?thesis by (intro conjI)
qed

theorem shocks_spaced_earliest_wins_witness:
  "sorted_index (sa_data (RateShockAnalyzer_init shock_panel shock_config)) \<and>
   identify_shocks (RateShockAnalyzer_init shock_panel shock_config) =
     ([100, 300, 500],
      (RateShockAnalyzer_init shock_panel shock_config)\<lparr>shock_dates := Some [100, 300, 500]\<rparr>) \<and>
   [100, 200, 300, 500] = shock_candidates shock_config shock_panel \<and>
   \<bar>[100, 300, 500 :: int] ! 0 - [100, 300, 500] ! 2\<bar> > 180 \<and>
   \<bar>[100, 300, 500 :: int] ! 1 - [100, 300, 500] ! 0\<bar> > 180 \<and>
   hd [100, 300, 500 :: int] = hd [100, 200, 300, 500] \<and>
   (\<exists>a \<in> set [100, 300, 500 :: int]. a \<le> 200 \<and> 200 - a \<le> 180) \<and>
   {100, 200 :: int} \<subseteq> set [100, 200, 300, 500] \<and> (200 :: int) - 100 \<le> 180 \<and>
   (100 :: int) \<in> set [100, 300, 500] \<and> (200 :: int) \<notin> set [100, 300, 500] \<and>
   (500 :: int) \<in> set [100, 300, 500]"
proof -
  let ?self = "RateShockAnalyzer_init shock_panel shock_config"
  let ?es = "[100, 300, 500 :: int]"
  let ?cs = "[100, 200, 300, 500 :: int]"
  have cs: "?cs = shock_candidates (sa_config ?self) (sa_data ?self)"
    unfolding RateShockAnalyzer_init_def by code_simp
  have srt: "sorted_index (sa_data ?self)"
    by (simp add: RateShockAnalyzer_init_def sorted_index_def shock_panel_def mk_obs_def)
  have run: "identify_shocks ?self = (?es, ?self\<lparr>shock_dates := Some ?es\<rparr>)"
    by (simp add: identify_shocks_def cs [symmetric] Let_def)
  note inst = shocks_spaced_earliest_wins [OF run cs]
  note pair = inst [THEN conjunct1, rule_format]
  note chrono = inst [THEN conjunct2, THEN conjunct2, THEN conjunct2, THEN conjunct1,
      rule_format, OF srt]
  note cover = chrono [THEN conjunct1]
  note cluster = chrono [THEN conjunct2, rule_format]
  have "0 < length ?es \<and> 2 < length ?es \<and> (0::nat) \<noteq> 2" by simp
  from pair [OF this] have p02: "\<bar>?es ! 0 - ?es ! 2\<bar> > 180" .
  have "1 < length ?es \<and> 0 < length ?es \<and> (1::nat) \<noteq> 0" by simp
  from pair [OF this] have p10: "\<bar>?es ! 1 - ?es ! 0\<bar> > 180" .
  have c200: "\<exists>a \<in> set ?es. a \<le> 200 \<and> 200 - a \<le> 180" using cover by simp
  have k: "{100, 200 :: int} \<subseteq> set ?cs" "(200 :: int) - 100 \<le> 180" by simp_all
  have "{100, 200 :: int} \<subseteq> set ?cs \<and> 100 \<in> {100, 200 :: int} \<and>
        (\<forall>c \<in> {100, 200 :: int}. 100 \<le> c \<and> c - 100 \<le> 180) \<and>
        (\<forall>c' \<in> set ?cs. c' < 100 \<longrightarrow> 100 - c' > 180)"
    by simp
  from cluster [OF this]
  have first_cluster: "(100 :: int) \<in> set ?es \<and> (\<forall>c \<in> {100, 200 :: int}. c \<in> set ?es \<longrightarrow> c = 100)" .
  then have a100: "(100 :: int) \<in> set ?es" and r200: "(200 :: int) \<notin> set ?es"
    by simp_all
  have "{500 :: int} \<subseteq> set ?cs \<and> 500 \<in> {500 :: int} \<and>
        (\<forall>c \<in> {500 :: int}. 500 \<le> c \<and> c - 500 \<le> 180) \<and>
        (\<forall>c' \<in> set ?cs. c' < 500 \<longrightarrow> 500 - c' > 180)"
    by simp
  from cluster [OF this] have a500: "(500 :: int) \<in> set ?es" by simp
  have hd_eq: "hd ?es = hd ?cs" by simp
  from srt run cs p02 p10 hd_eq c200 k a100 r200 a500 show ?thesis
    by (simp add: RateShockAnalyzer_init_def)
qed

text \<open>
  C3 as stated fails: the earliest candidate of a cluster need not be the one accepted. On
  a panel whose candidates fall on days 100, 200, 300 and 500, the candidates of days 200
  and 300 are 100 days apart; the earlier one is rejected, being 100 days after the
  accepted event of day 100, and the later one is accepted, being 200 days after it.
\<close>

theorem cluster_earliest_rejected_later_accepted:
  "sorted_index shock_panel \<and>
   shock_candidates shock_config shock_panel = [100, 200, 300, 500] \<and>
   fst (identify_shocks (RateShockAnalyzer_init shock_panel shock_config)) = [100, 300, 500] \<and>
   200 \<in> set (shock_candidates shock_config shock_panel) \<and>
   300 \<in> set (shock_candidates shock_config shock_panel) \<and>
   \<bar>300 - 200 :: int\<bar> \<le> 180 \<and>
   200 \<notin> set (fst (identify_shocks (RateShockAnalyzer_init shock_panel shock_config))) \<and>
   300 \<in> set (fst (identify_shocks (RateShockAnalyzer_init shock_panel shock_config)))"
proof -
  have srt: "sorted_index shock_panel"
    by (simp add: sorted_index_def shock_panel_def mk_obs_def)
  have cs: "shock_candidates shock_config shock_panel = [100, 200, 300, 500]"
    by code_simp
  have es: "fst (identify_shocks (RateShockAnalyzer_init shock_panel shock_config)) = [100, 300, 500]"
    by (simp add: identify_shocks_def RateShockAnalyzer_init_def cs Let_def)
  from srt cs show ?thesis unfolding es by simp
qed

section \<open>Properties of the response measurement\<close>

lemma get_loc_Pos:
  assumes "get_loc idx label = Inr (Pos i)"
  shows "i < length idx \<and> idx ! i = label"
proof -
  from assms have "filter (\<lambda>i. idx ! i = label) [0..<length idx] = [i]"
    by (auto simp: get_loc_def split: list.splits)
  then have "i \<in> set (filter (\<lambda>i. idx ! i = label) [0..<length idx])"
    by simp
  then show ?thesis by simp
qed

lemma ticker_rets_in_range:
  assumes "shock_idx + horizon < length (rows df)"
  shows "\<exists>entries. ticker_rets cfg df shock_idx horizon = Inr entries"
proof -
  let ?step = "\<lambda>ticker acc.
            case acc of Inl e \<Rightarrow> Inl e
            | Inr entries \<Rightarrow>
                if ticker \<notin> set (asset_columns df) then Inr entries
                else (case iloc (map (\<lambda>r. price r ticker) (rows df)) shock_idx of
                        Inl e \<Rightarrow> Inl e
                      | Inr start_price \<Rightarrow>
                          (case iloc (map (\<lambda>r. price r ticker) (rows df)) (shock_idx + horizon) of
                             Inl e \<Rightarrow> Inl e
                           | Inr end_price \<Rightarrow>
                               Inr (entries @ [(ticker, pct_ret end_price start_price)])))"
  have "\<exists>entries. fold ?step ts (Inr acc) = Inr entries" for ts :: "string list" and acc
  proof (induction ts arbitrary: acc)
    case Nil
    then show ?case by simp
  next
    case (Cons t ts)
    have lt: "shock_idx < length (rows df)" using assms by simp
    have "\<exists>acc'. ?step t (Inr acc) = Inr acc'"
      using assms lt by (simp add: iloc_def)
    then obtain acc' where "?step t (Inr acc) = Inr acc'" ..
    then show ?case using Cons.IH [of acc'] by simp
  qed
  then show ?thesis by (simp add: ticker_rets_def)
qed

lemma measure_event_cases:
  "measure_event cfg df sd =
     (case get_loc (map date (rows df)) sd of
        Inl e \<Rightarrow> Failed e
      | Inr Many \<Rightarrow> Failed TypeError
      | Inr (Pos i) \<Rightarrow>
          if length (rows df) \<le> i + SHOCK_HORIZON cfg then Skipped
          else (case ticker_rets cfg df i (SHOCK_HORIZON cfg) of
                  Inl e \<Rightarrow> Failed e
                | Inr entries \<Rightarrow>
                    Measured \<lparr> shock_date = sd, start_yield = TREASURY_10Y (rows df ! i),
                               end_yield = TREASURY_10Y (rows df ! (i + SHOCK_HORIZON cfg)),
                               rets = entries \<rparr>))"
  by (simp add: measure_event_def iloc_def Let_def split: sum.splits loc.splits)

lemma measure_event_Measured:
  assumes "measure_event cfg df sd = Measured r"
  shows "shock_date r = sd \<and>
         (\<exists>i. get_loc (map date (rows df)) sd = Inr (Pos i) \<and>
              i + SHOCK_HORIZON cfg < length (rows df) \<and>
              date (rows df ! i) = sd \<and>
              start_yield r = TREASURY_10Y (rows df ! i) \<and>
              end_yield r = TREASURY_10Y (rows df ! (i + SHOCK_HORIZON cfg)))"
proof -
  from assms obtain i where i: "get_loc (map date (rows df)) sd = Inr (Pos i)"
    by (auto simp: measure_event_cases split: sum.splits loc.splits)
  from get_loc_Pos [OF i] have d: "date (rows df ! i) = sd" by auto
  from assms i have "i + SHOCK_HORIZON cfg < length (rows df)"
    by (auto simp: measure_event_cases split: if_splits)
  with assms i d show ?thesis
    by (auto simp: measure_event_cases split: sum.splits)
qed

lemma measure_event_no_IndexError: "measure_event cfg df sd \<noteq> Failed IndexError"
proof (cases "get_loc (map date (rows df)) sd")
  case (Inl e)
  then have "e = KeyError" by (auto simp: get_loc_def split: list.splits)
  with Inl show ?thesis by (simp add: measure_event_cases)
next
  case (Inr l)
  show ?thesis
  proof (cases l)
    case Many
    with Inr show ?thesis by (simp add: measure_event_cases)
  next
    case (Pos i)
    show ?thesis
    proof (cases "length (rows df) \<le> i + SHOCK_HORIZON cfg")
      case True
      with Inr Pos show ?thesis by (simp add: measure_event_cases)
    next
      case False
      then obtain entries where "ticker_rets cfg df i (SHOCK_HORIZON cfg) = Inr entries"
        using ticker_rets_in_range [of i "SHOCK_HORIZON cfg" df cfg] by auto
      with Inr Pos False show ?thesis by (simp add: measure_event_cases)
    qed
  qed
qed

lemma collect_responses_mem:
  "r \<in> set (collect_responses cfg df sds) \<longleftrightarrow> (\<exists>sd \<in> set sds. measure_event cfg df sd = Measured r)"
proof
  assume "r \<in> set (collect_responses cfg df sds)"
  then obtain sd where "sd \<in> set sds"
    and "r \<in> set (case measure_event cfg df sd of Measured r \<Rightarrow> [r] | _ \<Rightarrow> [])"
    by (auto simp: collect_responses_def)
  then show "\<exists>sd \<in> set sds. measure_event cfg df sd = Measured r"
    by (cases "measure_event cfg df sd") auto
next
  assume "\<exists>sd \<in> set sds. measure_event cfg df sd = Measured r"
  then obtain sd where "sd \<in> set sds" and m: "measure_event cfg df sd = Measured r" by blast
  then show "r \<in> set (collect_responses cfg df sds)"
    by (force simp: collect_responses_def)
qed

text \<open>
  C5 (horizon safety). \<^verbatim>\<open>measure_shock_response\<close> returns normally whenever it has shock
  dates to work on. An event whose row position plus \<^verbatim>\<open>SHOCK_HORIZON\<close> reaches the row count
  is skipped: it gives no response and raises nothing. Every response produced belongs to
  an event at a position \<open>i\<close> with \<open>i + SHOCK_HORIZON\<close> below the row count, and its two
  yields are the values of rows \<open>i\<close> and \<open>i + SHOCK_HORIZON\<close>; no read is out of range.
\<close>

theorem responses_stay_within_panel:
  assumes "sds_arg = Some sds \<or> (sds_arg = None \<and> shock_dates self = Some sds)"
    and "df = sa_data self" and "h = SHOCK_HORIZON (sa_config self)"
  shows "\<exists>rs self'. measure_shock_response self sds_arg = Inr (rs, self') \<and>
           shock_responses self' = Some rs \<and>
           (\<forall>sd \<in> set sds. \<forall>i. get_loc (map date (rows df)) sd = Inr (Pos i) \<and>
                                length (rows df) \<le> i + h \<longrightarrow>
                measure_event (sa_config self) df sd = Skipped \<and> sd \<notin> shock_date ` set rs) \<and>
           (\<forall>r \<in> set rs. \<exists>i. date (rows df ! i) = shock_date r \<and> i + h < length (rows df) \<and>
                start_yield r = TREASURY_10Y (rows df ! i) \<and>
                end_yield r = TREASURY_10Y (rows df ! (i + h))) \<and>
           (\<forall>sd. measure_event (sa_config self) df sd \<noteq> Failed IndexError)"
proof -
  let ?cfg = "sa_config self"
  let ?rs = "collect_responses ?cfg df sds"
  have run: "measure_shock_response self sds_arg = Inr (?rs, self\<lparr>shock_responses := Some ?rs\<rparr>)"
    using assms(1,2) by (auto simp: measure_shock_response_def Let_def)
  have skipped: "\<forall>sd \<in> set sds. \<forall>i. get_loc (map date (rows df)) sd = Inr (Pos i) \<and>
                                length (rows df) \<le> i + h \<longrightarrow>
                measure_event ?cfg df sd = Skipped \<and> sd \<notin> shock_date ` set ?rs"
  proof (intro ballI allI impI)
    fix sd i
    assume "sd \<in> set sds"
      and far: "get_loc (map date (rows df)) sd = Inr (Pos i) \<and> length (rows df) \<le> i + h"
    then have skip: "measure_event ?cfg df sd = Skipped"
      using assms(3) by (simp add: measure_event_cases)
    have "sd \<notin> shock_date ` set ?rs"
    proof
      assume "sd \<in> shock_date ` set ?rs"
      then obtain r where r: "r \<in> set ?rs" "shock_date r = sd" by auto
      then obtain sd' where "measure_event ?cfg df sd' = Measured r"
        by (auto simp: collect_responses_mem)
      with measure_event_Measured [OF this] r have "measure_event ?cfg df sd = Measured r"
        by simp
      with skip show False by simp
    qed
    with skip show "measure_event ?cfg df sd = Skipped \<and> sd \<notin> shock_date ` set ?rs" ..
  qed
  have inside: "\<forall>r \<in> set ?rs. \<exists>i. date (rows df ! i) = shock_date r \<and> i + h < length (rows df) \<and>
                start_yield r = TREASURY_10Y (rows df ! i) \<and>
                end_yield r = TREASURY_10Y (rows df ! (i + h))"
  proof
    fix r assume "r \<in> set ?rs"
    then obtain sd where "measure_event ?cfg df sd = Measured r"
      by (auto simp: collect_responses_mem)
    from measure_event_Measured [OF this] assms(3)
    show "\<exists>i. date (rows df ! i) = shock_date r \<and> i + h < length (rows df) \<and>
                start_yield r = TREASURY_10Y (rows df ! i) \<and>
                end_yield r = TREASURY_10Y (rows df ! (i + h))"
      by auto
  qed
  from run skipped inside measure_event_no_IndexError show ?thesis by simp
qed

theorem responses_stay_within_panel_witness:
  "shock_dates ((RateShockAnalyzer_init shock_panel shock_config)\<lparr>shock_dates := Some [100, 300, 500]\<rparr>)
     = Some [100, 300, 500] \<and>
   get_loc (map date (rows shock_panel)) 300 = Inr (Pos 3) \<and>
   length (rows shock_panel) \<le> 3 + SHOCK_HORIZON shock_config \<and>
   measure_event shock_config shock_panel 300 = Skipped \<and>
   collect_responses shock_config shock_panel [100, 300, 500] =
     [\<lparr> shock_date = 100, start_yield = Some 2, end_yield = Some 4,
         rets = [(''SPY'', Some 0), (''TLT'', Some 0), (''GLD'', Some 0)] \<rparr>] \<and>
   (\<exists>rs self'. measure_shock_response
        ((RateShockAnalyzer_init shock_panel shock_config)\<lparr>shock_dates := Some [100, 300, 500]\<rparr>)
        None = Inr (rs, self') \<and>
      shock_responses self' = Some rs \<and> 300 \<notin> shock_date ` set rs \<and>
      (\<forall>r \<in> set rs. \<exists>i. date (rows shock_panel ! i) = shock_date r \<and>
          i + SHOCK_HORIZON shock_config < length (rows shock_panel)))"
proof -
  let ?self = "(RateShockAnalyzer_init shock_panel shock_config)\<lparr>shock_dates := Some [100, 300, 500]\<rparr>"
  have a: "None = Some [100, 300, 500] \<or> ((None :: int list option) = None \<and>
             shock_dates ?self = Some [100, 300, 500])"
    by simp
  have d: "shock_panel = sa_data ?self" "SHOCK_HORIZON shock_config = SHOCK_HORIZON (sa_config ?self)"
    by (simp_all add: RateShockAnalyzer_init_def)
  have loc: "get_loc (map date (rows shock_panel)) 300 = Inr (Pos 3)"
    by code_simp
  have far: "length (rows shock_panel) \<le> 3 + SHOCK_HORIZON shock_config"
    by code_simp
  have skip: "measure_event shock_config shock_panel 300 = Skipped"
    by code_simp
  have coll: "collect_responses shock_config shock_panel [100, 300, 500] =
     [\<lparr> shock_date = 100, start_yield = Some 2, end_yield = Some 4,
         rets = [(''SPY'', Some 0), (''TLT'', Some 0), (''GLD'', Some 0)] \<rparr>]"
    by code_simp
  have cfg: "sa_config ?self = shock_config"
    by (simp add: RateShockAnalyzer_init_def)
  from responses_stay_within_panel [OF a d, unfolded cfg]
  obtain rs self' where run: "measure_shock_response ?self None = Inr (rs, self')"
    and stored: "shock_responses self' = Some rs"
    and skipped: "\<forall>sd \<in> set [100, 300, 500]. \<forall>i.
        get_loc (map date (rows shock_panel)) sd = Inr (Pos i) \<and>
        length (rows shock_panel) \<le> i + SHOCK_HORIZON shock_config \<longrightarrow>
        measure_event shock_config shock_panel sd = Skipped \<and> sd \<notin> shock_date ` set rs"
    and inside: "\<forall>r \<in> set rs. \<exists>i. date (rows shock_panel ! i) = shock_date r \<and>
        i + SHOCK_HORIZON shock_config < length (rows shock_panel) \<and>
        start_yield r = TREASURY_10Y (rows shock_panel ! i) \<and>
        end_yield r = TREASURY_10Y (rows shock_panel ! (i + SHOCK_HORIZON shock_config))"
    by blast
  from skipped loc far have out: "300 \<notin> shock_date ` set rs"
    by (simp del: One_nat_def)
  from inside have "\<forall>r \<in> set rs. \<exists>i. date (rows shock_panel ! i) = shock_date r \<and>
        i + SHOCK_HORIZON shock_config < length (rows shock_panel)"
    by blast
  with run stored out have "\<exists>rs self'. measure_shock_response ?self None = Inr (rs, self') \<and>
      shock_responses self' = Some rs \<and> 300 \<notin> shock_date ` set rs \<and>
      (\<forall>r \<in> set rs. \<exists>i. date (rows shock_panel ! i) = shock_date r \<and>
          i + SHOCK_HORIZON shock_config < length (rows shock_panel))"
    by blast
  moreover have "shock_dates ?self = Some [100, 300, 500]" by simp
  ultimately show ?thesis using loc far skip coll by simp
qed

section \<open>Properties of the stress test\<close>

lemma stress_test_explicit_guard:
  assumes "shock_responses self = None \<or> shock_responses self = Some []"
  shows "portfolio_stress_test on_empty self weights_arg None = Inl ValueError"
  using assms by (auto simp: portfolio_stress_test_def)

lemma stress_test_empty_frame:
  "\<exists>e. portfolio_stress_test on_empty self weights_arg (Some []) = Inl e"
proof (cases on_empty)
  case (Inl e)
  then show ?thesis
    by (simp add: portfolio_stress_test_def np_percentile_def Let_def)
next
  case (Inr v)
  then show ?thesis
    by (simp add: portfolio_stress_test_def np_percentile_def np_min_def Let_def)
qed

text \<open>
  C4 (zero responses are an error). Whenever \<^verbatim>\<open>portfolio_stress_test\<close> has zero responses to
  work on, it raises and returns no summary and no table. Called without a frame while the
  analyzer holds none or an empty one, it raises the ValueError of its own guard. Called
  with an empty frame, it raises inside the summary statistics, at the latest in \<^verbatim>\<open>np.min\<close>,
  whatever \<^verbatim>\<open>np.percentile\<close> does on an empty array.
\<close>

theorem stress_test_without_responses_raises:
  assumes "no_responses self responses_arg"
  shows "(\<exists>e. portfolio_stress_test on_empty self weights_arg responses_arg = Inl e) \<and>
         (responses_arg = None \<longrightarrow>
            portfolio_stress_test on_empty self weights_arg responses_arg = Inl ValueError) \<and>
         (on_empty = Inr v \<longrightarrow>
            portfolio_stress_test on_empty self weights_arg responses_arg = Inl ValueError)"
proof (cases responses_arg)
  case None
  with assms have "shock_responses self = None \<or> shock_responses self = Some []"
    by (auto simp: no_responses_def split: option.splits)
  from stress_test_explicit_guard [OF this] None show ?thesis by simp
next
  case (Some rs)
  with assms have rs: "rs = []" by (simp add: no_responses_def)
  have "on_empty = Inr v \<longrightarrow>
          portfolio_stress_test on_empty self weights_arg (Some []) = Inl ValueError"
    by (simp add: portfolio_stress_test_def np_percentile_def np_min_def Let_def)
  with stress_test_empty_frame [of on_empty self weights_arg] Some rs show ?thesis by simp
qed

theorem stress_test_without_responses_raises_witness:
  "no_responses ((RateShockAnalyzer_init shock_panel shock_config)\<lparr>shock_responses := Some []\<rparr>) None \<and>
   portfolio_stress_test (Inr None)
     ((RateShockAnalyzer_init shock_panel shock_config)\<lparr>shock_responses := Some []\<rparr>) None None
     = Inl ValueError \<and>
   no_responses (RateShockAnalyzer_init shock_panel shock_config) (Some []) \<and>
   portfolio_stress_test (Inr None) (RateShockAnalyzer_init shock_panel shock_config) None (Some [])
     = Inl ValueError \<and>
   portfolio_stress_test (Inl IndexError) (RateShockAnalyzer_init shock_panel shock_config) None (Some [])
     = Inl IndexError"
proof -
  let ?held = "(RateShockAnalyzer_init shock_panel shock_config)\<lparr>shock_responses := Some []\<rparr>"
  let ?fresh = "RateShockAnalyzer_init shock_panel shock_config"
  have a: "no_responses ?held None"
    by (simp add: no_responses_def)
  have b: "no_responses ?fresh (Some [])"
    by (simp add: no_responses_def)
  note guard = stress_test_without_responses_raises [OF a, of "Inr None" None, THEN conjunct2,
      THEN conjunct1, rule_format, OF refl]
  note empty = stress_test_without_responses_raises [OF b, of "Inr None" None None, THEN conjunct2,
      THEN conjunct2, rule_format, OF refl]
  have c: "portfolio_stress_test (Inl IndexError) ?fresh None (Some []) = Inl IndexError"
    by (simp add: portfolio_stress_test_def np_percentile_def Let_def)
  from a b guard empty c show ?thesis by simp
qed

lemma sequence_err_Inr:
  assumes "\<forall>x \<in> set xs. \<exists>v. x = Inr v"
  shows "\<exists>vs. sequence_err xs = Inr vs"
  using assms by (induction xs) auto

lemma stress_test_returns_on_responses:
  assumes "frame \<noteq> []"
  shows "\<exists>summary detailed_table.
           portfolio_stress_test on_empty self weights_arg (Some frame) = Inr (summary, detailed_table) \<and>
           s_count summary = length frame \<and> length detailed_table = 3"
proof -
  define weights where
    "weights = (case weights_arg of None \<Rightarrow> PORTFOLIO_WEIGHTS (sa_config self) | Some w \<Rightarrow> w)"
  define prs where "prs = map (port_ret weights frame) frame"
  have ne: "prs \<noteq> []" using assms by (simp add: prs_def)
  have pct: "\<And>xs q. xs \<noteq> [] \<Longrightarrow> \<exists>v. np_percentile on_empty xs q = Inr v"
    by (simp add: np_percentile_def)
  have cols: "\<And>t. map (\<lambda>r. ret_cell r t) frame \<noteq> []" using assms by simp
  have row: "\<And>pl. \<exists>tr. detailed_row on_empty (sa_config self) frame prs pl = Inr tr"
  proof -
    fix pl :: "real \<times> string"
    let ?cells = "map (\<lambda>ticker. case np_percentile on_empty (map (\<lambda>r. ret_cell r ticker) frame) (fst pl) of
                               Inl e \<Rightarrow> Inl e | Inr v \<Rightarrow> Inr (ticker, v))
                  (filter (\<lambda>ticker. ticker \<in> set (response_columns frame)) (TICKERS (sa_config self)))"
    have "\<forall>x \<in> set ?cells. \<exists>v. x = Inr v"
    proof
      fix x assume "x \<in> set ?cells"
      then obtain t where x: "x = (case np_percentile on_empty (map (\<lambda>r. ret_cell r t) frame) (fst pl) of
                               Inl e \<Rightarrow> Inl e | Inr v \<Rightarrow> Inr (t, v))"
        by auto
      from pct [OF cols, of t "fst pl"] obtain v
        where "np_percentile on_empty (map (\<lambda>r. ret_cell r t) frame) (fst pl) = Inr v" ..
      with x show "\<exists>v. x = Inr v" by simp
    qed
    from sequence_err_Inr [OF this] obtain cells where c: "sequence_err ?cells = Inr cells" ..
    from pct [OF ne, of "fst pl"] obtain p where "np_percentile on_empty prs (fst pl) = Inr p" ..
    with c show "\<exists>tr. detailed_row on_empty (sa_config self) frame prs pl = Inr tr"
      by (simp add: detailed_row_def)
  qed
  let ?rows = "map (detailed_row on_empty (sa_config self) frame prs)
                 [(10, ''Tail (10th pct)''), (50, ''Median''), (90, ''Best (90th pct)'')]"
  obtain r1 r2 r3 where rows: "?rows = [Inr r1, Inr r2, Inr r3]"
    using row [of "(10, ''Tail (10th pct)'')"] row [of "(50, ''Median'')"]
      row [of "(90, ''Best (90th pct)'')"] by auto
  obtain p10 where p10: "np_percentile on_empty prs 10 = Inr p10" using pct [OF ne] by blast
  obtain p90 where p90: "np_percentile on_empty prs 90 = Inr p90" using pct [OF ne] by blast
  have mn: "\<exists>v. np_min prs = Inr v" and mx: "\<exists>v. np_max prs = Inr v"
    using ne by (simp_all add: np_min_def np_max_def)
  then obtain vmin vmax where m: "np_min prs = Inr vmin" "np_max prs = Inr vmax" by blast
  have len: "length prs = length frame" by (simp add: prs_def)
  show ?thesis
    using p10 p90 m rows len
    by (simp add: portfolio_stress_test_def Let_def weights_def [symmetric] prs_def [symmetric])
qed

section \<open>Properties of the performance records\<close>

lemma regime_performance_records:
  assumes "regime_performance self = Inr recs" and "returns_data self = Some df"
    and "rec \<in> set recs"
  shows "\<exists>regime ticker. rec = perf_record (pa_config self) regime ticker (regime_returns df regime ticker) \<and>
           5 \<le> length (regime_returns df regime ticker) \<and> ticker \<in> set (ret_columns df) \<and>
           10 \<le> length (filter (\<lambda>r. REGIME r = regime) (rrows df))"
proof -
  from assms(1,2) have recs: "recs = concat (map (\<lambda>regime.
                 if length (filter (\<lambda>r. REGIME r = regime) (rrows df)) < 10 then []
                 else concat (map (\<lambda>ticker.
                        if ticker \<notin> set (ret_columns df) then []
                        else (let returns = regime_returns df regime ticker
                              in if length returns < 5 then []
                                 else [perf_record (pa_config self) regime ticker returns]))
                      (TICKERS (pa_config self))))
               [TIGHTENING, EASING, STRESS, NORMAL])"
    by (simp add: regime_performance_def)
  from assms(3) obtain regime where
    r: "rec \<in> set (if length (filter (\<lambda>r. REGIME r = regime) (rrows df)) < 10 then []
                 else concat (map (\<lambda>ticker.
                        if ticker \<notin> set (ret_columns df) then []
                        else (let returns = regime_returns df regime ticker
                              in if length returns < 5 then []
                                 else [perf_record (pa_config self) regime ticker returns]))
                      (TICKERS (pa_config self))))"
    unfolding recs set_concat by auto
  then have big: "10 \<le> length (filter (\<lambda>r. REGIME r = regime) (rrows df))"
    by (auto split: if_splits)
  with r have "\<exists>ticker. ticker \<in> set (ret_columns df) \<and>
      5 \<le> length (regime_returns df regime ticker) \<and>
      rec = perf_record (pa_config self) regime ticker (regime_returns df regime ticker)"
    by (auto simp: Let_def split: if_splits)
  with big show ?thesis by blast
qed

lemma regime_returns_subset:
  "x \<in> set (regime_returns df regime ticker) \<Longrightarrow> \<exists>r \<in> set (rrows df). RET r ticker = Some x"
  by (auto simp: regime_returns_def finite_values_def split: option.splits)

subsection \<open>Drawdown\<close>

lemma length_cumprod_from [simp]: "length (cumprod_from acc xs) = length xs"
  by (induction xs arbitrary: acc) auto

lemma cumprod_from_pos:
  "0 < acc \<Longrightarrow> \<forall>x \<in> set xs. 0 < x \<Longrightarrow> \<forall>c \<in> set (cumprod_from acc xs). 0 < c"
proof (induction xs arbitrary: acc)
  case Nil
  then show ?case by simp
next
  case (Cons x xs)
  have "0 < acc * x" using Cons.prems by simp
  moreover have "\<forall>y \<in> set xs. 0 < y" using Cons.prems by simp
  ultimately have "\<forall>c \<in> set (cumprod_from (acc * x) xs). 0 < c" by (rule Cons.IH)
  with \<open>0 < acc * x\<close> show ?case by simp
qed

lemma cummax_from_bounds:
  "\<forall>c \<in> set cs. 0 < c \<Longrightarrow> list_all2 (\<lambda>c m. 0 < c \<and> c \<le> m) cs (cummax_from m0 cs)"
  by (induction cs arbitrary: m0) auto

lemma expanding_max_bounds:
  "\<forall>c \<in> set cs. 0 < c \<Longrightarrow> list_all2 (\<lambda>c m. 0 < c \<and> c \<le> m) cs (expanding_max cs)"
  by (cases cs) (auto simp: expanding_max_def cummax_from_bounds)

lemma drawdown_ratio:
  assumes "0 < c" and "c \<le> m"
  shows "real_div (c - m) m = Some (c / m - 1) \<and> - 1 < c / m - 1 \<and> c / m - 1 \<le> 0"
proof -
  have m: "0 < m" using assms by simp
  then have "(c - m) / m = c / m - 1" by (simp add: diff_divide_distrib)
  moreover have "0 < c / m" using assms m by simp
  moreover have "c / m \<le> 1" using assms m by simp
  ultimately show ?thesis using m by (simp add: real_div_def)
qed

lemma drawdown_bounds:
  assumes "\<forall>x \<in> set returns. - 1 < x"
  shows "length (drawdown returns) = length returns \<and>
         (\<forall>d \<in> set (drawdown returns). \<exists>v. d = Some v \<and> - 1 < v \<and> v \<le> 0)"
proof -
  let ?cum = "cumprod (map (\<lambda>r. 1 + r) returns)"
  have "\<forall>x \<in> set (map (\<lambda>r. 1 + r) returns). 0 < x" using assms by auto
  then have pos: "\<forall>c \<in> set ?cum. 0 < c"
    unfolding cumprod_def by (intro cumprod_from_pos) simp_all
  from expanding_max_bounds [OF pos]
  have rel: "list_all2 (\<lambda>c m. 0 < c \<and> c \<le> m) ?cum (expanding_max ?cum)" .
  then have len: "length (expanding_max ?cum) = length ?cum"
    by (simp add: list_all2_lengthD)
  have "\<forall>d \<in> set (drawdown returns). \<exists>v. d = Some v \<and> - 1 < v \<and> v \<le> 0"
  proof
    fix d assume "d \<in> set (drawdown returns)"
    then obtain c m where cm: "(c, m) \<in> set (zip ?cum (expanding_max ?cum))"
      and d: "d = real_div (c - m) m"
      by (auto simp: drawdown_def Let_def)
    from cm rel have "0 < c \<and> c \<le> m"
      by (auto simp: list_all2_iff)
    with drawdown_ratio [of c m] d show "\<exists>v. d = Some v \<and> - 1 < v \<and> v \<le> 0" by auto
  qed
  moreover have "length (drawdown returns) = length returns"
    using len by (simp add: drawdown_def Let_def cumprod_def)
  ultimately show ?thesis by simp
qed

lemma fold_min_in_set: "fold min xs (x :: real) \<in> set (x # xs)"
proof (induction xs arbitrary: x)
  case Nil
  then show ?case by simp
next
  case (Cons y ys)
  from Cons.IH [of "min x y"] show ?case by (auto simp: min_def split: if_splits)
qed

lemma series_min_in:
  assumes "finite_values xs \<noteq> []"
  shows "\<exists>v. series_min xs = Some v \<and> v \<in> set (finite_values xs)"
proof -
  from assms obtain y ys where v: "finite_values xs = y # ys" by (cases "finite_values xs") auto
  with fold_min_in_set [of ys y] show ?thesis by (simp add: series_min_def)
qed

lemma finite_values_set: "v \<in> set (finite_values xs) \<longleftrightarrow> Some v \<in> set xs"
  by (auto simp: finite_values_def split: option.splits)

lemma max_dd_raw_bounds:
  assumes "returns \<noteq> []" and "\<forall>x \<in> set returns. - 1 < x"
  shows "\<exists>d. max_dd returns = Some d \<and> - 100 < d \<and> d \<le> 0"
proof -
  from drawdown_bounds [OF assms(2)]
  have len: "length (drawdown returns) = length returns"
    and all: "\<forall>d \<in> set (drawdown returns). \<exists>v. d = Some v \<and> - 1 < v \<and> v \<le> 0"
    by simp_all
  from len assms(1) obtain d0 ds where dd: "drawdown returns = d0 # ds"
    by (cases "drawdown returns") auto
  with all obtain v0 where "d0 = Some v0" by auto
  with dd have "finite_values (drawdown returns) \<noteq> []"
    by (simp add: finite_values_def)
  from series_min_in [OF this] obtain v where v: "series_min (drawdown returns) = Some v"
    "Some v \<in> set (drawdown returns)"
    by (auto simp: finite_values_set)
  with all have "- 1 < v \<and> v \<le> 0" by auto
  with v show ?thesis by (simp add: max_dd_def)
qed

subsection \<open>Rounding\<close>

lemma rint_between:
  assumes "of_int a \<le> x" and "x \<le> of_int b"
  shows "a \<le> rint x \<and> rint x \<le> b"
proof -
  have lo: "a \<le> \<lfloor>x\<rfloor>" using assms(1) by (simp add: le_floor_iff)
  have hi: "\<lfloor>x\<rfloor> \<le> b" using assms(2) by (simp add: floor_le_iff)
  show ?thesis
  proof (cases "x - of_int \<lfloor>x\<rfloor> < 1 / 2")
    case True
    then show ?thesis using lo hi by (simp add: rint_def Let_def)
  next
    case False
    then have "of_int \<lfloor>x\<rfloor> < x" by simp
    then have "of_int \<lfloor>x\<rfloor> < (of_int b :: real)" using assms(2) by simp
    then have "\<lfloor>x\<rfloor> + 1 \<le> b" by simp
    then show ?thesis using lo hi by (auto simp: rint_def Let_def)
  qed
qed

lemma round_to_2_between:
  assumes "- 100 \<le> x" and "x \<le> 0"
  shows "- 100 \<le> round_to 2 x \<and> round_to 2 x \<le> 0"
proof -
  have "of_int (- 10000) \<le> x * 10 ^ 2" "x * 10 ^ 2 \<le> of_int 0"
    using assms by simp_all
  from rint_between [OF this] have "- 10000 \<le> rint (x * 10 ^ 2)" "rint (x * 10 ^ 2) \<le> 0"
    by simp_all
  then have "(- 10000 :: real) \<le> of_int (rint (x * 10 ^ 2))" "of_int (rint (x * 10 ^ 2)) \<le> (0 :: real)"
    by linarith+
  then show ?thesis by (simp add: round_to_def)
qed

subsection \<open>The running peak and the minimum\<close>

lemma cummax_from_nth:
  "i < length cs \<Longrightarrow> cummax_from m cs ! i = Max (insert m (set (take (Suc i) cs)))"
proof (induction cs arbitrary: m i)
  case Nil
  then show ?case by simp
next
  case (Cons c cs)
  show ?case
  proof (cases i)
    case 0
    then show ?thesis by (simp add: max.commute)
  next
    case (Suc j)
    with Cons.prems have "j < length cs" by simp
    from Cons.IH [OF this, of "max m c"]
    have "cummax_from (max m c) cs ! j = Max (insert (max m c) (set (take (Suc j) cs)))" .
    also have "\<dots> = Max (insert m (insert c (set (take (Suc j) cs))))"
    proof -
      have ne: "set (take (Suc j) cs) \<noteq> {}" using \<open>j < length cs\<close> by (cases cs) auto
      then show ?thesis by (simp add: max.assoc)
    qed
    finally show ?thesis using Suc by simp
  qed
qed

lemma expanding_max_nth:
  assumes "i < length cs"
  shows "expanding_max cs ! i = Max (set (take (Suc i) cs))"
proof (cases cs)
  case Nil
  with assms show ?thesis by simp
next
  case (Cons c cs')
  show ?thesis
  proof (cases i)
    case 0
    with Cons show ?thesis by (simp add: expanding_max_def)
  next
    case (Suc j)
    with assms Cons have "j < length cs'" by simp
    from cummax_from_nth [OF this, of c] Suc Cons show ?thesis
      by (simp add: expanding_max_def)
  qed
qed

lemma length_expanding_max [simp]: "length (expanding_max cs) = length cs"
proof (cases cs)
  case Nil
  then show ?thesis by (simp add: expanding_max_def)
next
  case (Cons c cs')
  have "length (cummax_from m cs') = length cs'" for m
    by (induction cs' arbitrary: m) auto
  with Cons show ?thesis by (simp add: expanding_max_def)
qed

lemma drawdown_nth:
  assumes "\<forall>x \<in> set returns. - 1 < x" and "i < length returns"
  shows "drawdown returns ! i =
           Some (cumprod (map (\<lambda>r. 1 + r) returns) ! i /
                 Max (set (take (Suc i) (cumprod (map (\<lambda>r. 1 + r) returns)))) - 1)"
proof -
  let ?cum = "cumprod (map (\<lambda>r. 1 + r) returns)"
  have len: "length ?cum = length returns" by (simp add: cumprod_def)
  have "\<forall>x \<in> set (map (\<lambda>r. 1 + r) returns). 0 < x" using assms(1) by auto
  then have pos: "\<forall>c \<in> set ?cum. 0 < c"
    unfolding cumprod_def by (intro cumprod_from_pos) simp_all
  from expanding_max_bounds [OF pos] assms(2) len
  have "0 < ?cum ! i \<and> ?cum ! i \<le> expanding_max ?cum ! i"
    by (simp add: list_all2_conv_all_nth)
  from drawdown_ratio [of "?cum ! i" "expanding_max ?cum ! i"] this
  have "real_div (?cum ! i - expanding_max ?cum ! i) (expanding_max ?cum ! i) =
          Some (?cum ! i / expanding_max ?cum ! i - 1)"
    by simp
  moreover have "expanding_max ?cum ! i = Max (set (take (Suc i) ?cum))"
    using assms(2) len by (simp add: expanding_max_nth)
  moreover have "drawdown returns ! i =
      real_div (?cum ! i - expanding_max ?cum ! i) (expanding_max ?cum ! i)"
    using assms(2) len by (simp add: drawdown_def Let_def)
  ultimately show ?thesis by simp
qed

lemma series_min_Some:
  assumes "vs \<noteq> []"
  shows "series_min (map Some vs) = Some (Min (set vs))"
proof -
  have fv: "finite_values (map Some vs) = vs"
    by (induction vs) (simp_all add: finite_values_def)
  from assms obtain y ys where v: "vs = y # ys" by (cases vs) auto
  have "fold min ys y = Min (set (y # ys))" by (simp only: Min.set_eq_fold)
  then have "fold min (tl vs) (hd vs) = Min (set vs)" using v by simp
  with assms show ?thesis unfolding series_min_def fv Let_def by simp
qed

lemma max_dd_is_minimum:
  assumes "returns \<noteq> []" and "\<forall>x \<in> set returns. - 1 < x"
  shows "max_dd returns =
           Some (100 * Min ((\<lambda>i. cumprod (map (\<lambda>r. 1 + r) returns) ! i /
                               Max (set (take (Suc i) (cumprod (map (\<lambda>r. 1 + r) returns)))) - 1)
                            ` {..<length returns}))"
proof -
  let ?f = "\<lambda>i. cumprod (map (\<lambda>r. 1 + r) returns) ! i /
                 Max (set (take (Suc i) (cumprod (map (\<lambda>r. 1 + r) returns)))) - 1"
  have len: "length (drawdown returns) = length returns"
    using drawdown_bounds [OF assms(2)] by simp
  have eq: "drawdown returns = map Some (map ?f [0..<length returns])"
    by (rule nth_equalityI) (simp_all add: len drawdown_nth [OF assms(2)])
  have ne: "map ?f [0..<length returns] \<noteq> []" using assms(1) by simp
  have "set (map ?f [0..<length returns]) = ?f ` {..<length returns}"
    by (simp add: atLeast0LessThan)
  with series_min_Some [OF ne] eq show ?thesis
    by (simp add: max_dd_def mult.commute)
qed

subsection \<open>Evaluating the example frames\<close>

lemma regime_performance_frame_of:
  assumes "length xs = 10"
  shows "regime_performance (analyzer_of xs) = Inr [perf_record Config NORMAL ''SPY'' xs]"
proof -
  let ?df = "frame_of xs"
  have all: "filter (\<lambda>r. REGIME r = NORMAL) (rrows ?df) = rrows ?df"
    by (rule filter_True) (auto simp: frame_of_def mk_rrow_def)
  have none: "\<And>g. g \<noteq> NORMAL \<Longrightarrow> filter (\<lambda>r. REGIME r = g) (rrows ?df) = []"
    by (auto simp: filter_empty_conv frame_of_def mk_rrow_def)
  have len: "length (rrows ?df) = 10"
    using assms by (simp add: frame_of_def)
  have "map (\<lambda>r. RET r ''SPY'') (rrows ?df) = map Some xs"
    by (rule nth_equalityI) (simp_all add: frame_of_def mk_rrow_def)
  moreover have "finite_values (map Some xs) = xs"
    by (induction xs) (simp_all add: finite_values_def)
  ultimately have rets: "regime_returns ?df NORMAL ''SPY'' = xs"
    by (simp add: regime_returns_def all)
  have cols: "ret_columns ?df = [''SPY'']"
    by (simp add: frame_of_def)
  have cfg: "pa_config (analyzer_of xs) = Config" "returns_data (analyzer_of xs) = Some ?df"
    by (simp_all add: analyzer_of_def)
  have tick: "TICKERS Config = [''SPY'', ''TLT'', ''GLD'']"
    by (simp add: Config_def)
  show ?thesis
    using assms
    by (simp add: regime_performance_def cfg tick cols all none len rets)
qed

text \<open>
  C7 (maximum-drawdown bounds). For every record of \<^verbatim>\<open>regime_performance\<close> on a frame whose
  daily returns are all above -100\%, the maximum drawdown before rounding is 100 times the
  minimum, over the observations of the regime and asset, of the cumulative return divided
  by its running peak minus 1; it is at most 0 and above -100, and the rounded value the
  record holds is at most 0 and at least -100.
\<close>

theorem max_drawdown_within_bounds:
  assumes "regime_performance self = Inr recs" and "returns_data self = Some df"
    and "\<forall>r \<in> set (rrows df). \<forall>t x. RET r t = Some x \<longrightarrow> - 1 < x"
    and "rec \<in> set recs"
  shows "\<exists>returns cum d m.
           returns = regime_returns df (Regime rec) (Asset rec) \<and>
           cum = cumprod (map (\<lambda>r. 1 + r) returns) \<and>
           max_dd returns = Some d \<and>
           d = 100 * Min ((\<lambda>i. cum ! i / Max (set (take (Suc i) cum)) - 1) ` {..<length returns}) \<and>
           - 100 < d \<and> d \<le> 0 \<and>
           Max_DD_pct rec = Some m \<and> m = round_to 2 d \<and> - 100 \<le> m \<and> m \<le> 0"
proof -
  from regime_performance_records [OF assms(1,2,4)] obtain regime ticker
    where rec: "rec = perf_record (pa_config self) regime ticker (regime_returns df regime ticker)"
      and len: "5 \<le> length (regime_returns df regime ticker)"
    by blast
  let ?returns = "regime_returns df regime ticker"
  have ne: "?returns \<noteq> []" using len by auto
  have above: "\<forall>x \<in> set ?returns. - 1 < x"
  proof
    fix x assume "x \<in> set ?returns"
    from regime_returns_subset [OF this] assms(3) show "- 1 < x" by blast
  qed
  from max_dd_raw_bounds [OF ne above] obtain d
    where d: "max_dd ?returns = Some d" "- 100 < d" "d \<le> 0" by blast
  from max_dd_is_minimum [OF ne above] d(1)
  have dmin: "d = 100 * Min ((\<lambda>i. cumprod (map (\<lambda>r. 1 + r) ?returns) ! i /
                    Max (set (take (Suc i) (cumprod (map (\<lambda>r. 1 + r) ?returns)))) - 1)
                  ` {..<length ?returns})"
    by simp
  from round_to_2_between [of d] d have r: "- 100 \<le> round_to 2 d \<and> round_to 2 d \<le> 0"
    by simp
  have names: "Regime rec = regime" "Asset rec = ticker"
    "Max_DD_pct rec = Some (round_to 2 d)"
    by (simp_all add: rec perf_record_def d(1) cell_round_def)
  from d dmin r names show ?thesis by simp
qed

theorem max_drawdown_within_bounds_witness:
  "regime_performance (analyzer_of flat_returns) = Inr [perf_record Config NORMAL ''SPY'' flat_returns] \<and>
   returns_data (analyzer_of flat_returns) = Some (frame_of flat_returns) \<and>
   list_all (\<lambda>x. - 1 < x) flat_returns \<and>
   (\<exists>d m. max_dd flat_returns = Some d \<and> - 100 < d \<and> d \<le> 0 \<and>
          Max_DD_pct (perf_record Config NORMAL ''SPY'' flat_returns) = Some m \<and>
          - 100 \<le> m \<and> m \<le> 0)"
proof -
  let ?rec = "perf_record Config NORMAL ''SPY'' flat_returns"
  have run: "regime_performance (analyzer_of flat_returns) = Inr [?rec]"
    by (rule regime_performance_frame_of) (simp add: flat_returns_def)
  have df: "returns_data (analyzer_of flat_returns) = Some (frame_of flat_returns)"
    by (simp add: analyzer_of_def)
  have vals: "list_all (\<lambda>x. - 1 < x) flat_returns"
    by (simp add: flat_returns_def)
  have above: "\<forall>r \<in> set (rrows (frame_of flat_returns)). \<forall>t x. RET r t = Some x \<longrightarrow> - 1 < x"
  proof (intro ballI allI impI)
    fix r t x
    assume "r \<in> set (rrows (frame_of flat_returns))" and "RET r t = Some x"
    then have "x \<in> set flat_returns"
      by (auto simp: frame_of_def mk_rrow_def dest: set_zip_rightD split: if_splits)
    with vals show "- 1 < x" by (simp add: list_all_iff)
  qed
  have mem: "?rec \<in> set [?rec]" by simp
  have same: "regime_returns (frame_of flat_returns) (Regime ?rec) (Asset ?rec) = flat_returns"
  proof -
    have "map (\<lambda>r. RET r ''SPY'') (rrows (frame_of flat_returns)) = map Some flat_returns"
      by (rule nth_equalityI) (simp_all add: frame_of_def mk_rrow_def)
    moreover have "filter (\<lambda>r. REGIME r = NORMAL) (rrows (frame_of flat_returns)) =
        rrows (frame_of flat_returns)"
      by (rule filter_True) (auto simp: frame_of_def mk_rrow_def)
    moreover have "finite_values (map Some flat_returns) = flat_returns"
      by (simp add: finite_values_def flat_returns_def)
    ultimately show ?thesis
      by (simp add: regime_returns_def perf_record_def)
  qed
  from max_drawdown_within_bounds [OF run df above mem]
  have "\<exists>d m. max_dd flat_returns = Some d \<and> - 100 < d \<and> d \<le> 0 \<and>
          Max_DD_pct ?rec = Some m \<and> - 100 \<le> m \<and> m \<le> 0"
    unfolding same by blast
  with run df vals show ?thesis by simp
qed

subsection \<open>Sharpe ratio\<close>

lemma sharpe_cases:
  assumes "2 \<le> length returns"
  shows "\<exists>r v. ann_return cfg returns = Some r \<and> ann_vol cfg returns = Some v \<and> 0 \<le> v \<and>
           sharpe cfg returns = Some (if 0 < v then r / v else 0) \<and>
           (sharpe cfg returns = Some 0 \<longleftrightarrow> v = 0 \<or> r = 0)"
proof -
  define m where "m = sum_list returns / real (length returns)"
  define s where
    "s = sqrt (sum_list (map (\<lambda>x. (x - m)\<^sup>2) returns) / real (length returns - 1))"
  define r where "r = m * real (ANNUALIZATION_FACTOR cfg) * 100"
  define v where "v = s * sqrt (real (ANNUALIZATION_FACTOR cfg)) * 100"
  have ne: "returns \<noteq> []" using assms by auto
  have r: "ann_return cfg returns = Some r"
    using ne by (simp add: ann_return_def series_mean_def r_def m_def)
  have v: "ann_vol cfg returns = Some v"
    using assms by (simp add: ann_vol_def series_std_def v_def s_def m_def)
  have "0 \<le> sum_list (map (\<lambda>x. (x - m)\<^sup>2) returns)"
    by (rule sum_list_nonneg) auto
  then have "0 \<le> s" by (simp add: s_def)
  then have v0: "0 \<le> v" by (simp add: v_def)
  have sh: "sharpe cfg returns = Some (if 0 < v then r / v else 0)"
    unfolding sharpe_def r v by (simp add: cell_gt_def real_div_def)
  have "sharpe cfg returns = Some 0 \<longleftrightarrow> v = 0 \<or> r = 0"
  proof (cases "0 < v")
    case True
    then show ?thesis unfolding sh by simp
  next
    case False
    with v0 have "v = 0" by simp
    then show ?thesis unfolding sh by simp
  qed
  with r v v0 sh show ?thesis by blast
qed

text \<open>
  C6, as the code has it. For every record of \<^verbatim>\<open>regime_performance\<close>, the annualized
  volatility is defined and not negative; the Sharpe ratio before rounding is the annualized
  return divided by the annualized volatility when the volatility is positive, and 0 when
  the volatility is 0. It is 0 exactly when the volatility is 0 or the annualized return is
  0. The record holds these values rounded to two decimals.
\<close>

theorem sharpe_is_guarded_quotient:
  assumes "regime_performance self = Inr recs" and "returns_data self = Some df"
    and "rec \<in> set recs"
  shows "\<exists>returns r v.
           returns = regime_returns df (Regime rec) (Asset rec) \<and>
           ann_return (pa_config self) returns = Some r \<and>
           ann_vol (pa_config self) returns = Some v \<and> 0 \<le> v \<and>
           sharpe (pa_config self) returns = Some (if 0 < v then r / v else 0) \<and>
           (sharpe (pa_config self) returns = Some 0 \<longleftrightarrow> v = 0 \<or> r = 0) \<and>
           Ann_Return_pct rec = Some (round_to 2 r) \<and>
           Ann_Vol_pct rec = Some (round_to 2 v) \<and>
           Sharpe rec = Some (round_to 2 (if 0 < v then r / v else 0))"
proof -
  from regime_performance_records [OF assms] obtain regime ticker
    where rec: "rec = perf_record (pa_config self) regime ticker (regime_returns df regime ticker)"
      and len: "5 \<le> length (regime_returns df regime ticker)"
    by blast
  let ?returns = "regime_returns df regime ticker"
  have "2 \<le> length ?returns" using len by simp
  from sharpe_cases [OF this, of "pa_config self"] obtain r v
    where rv: "ann_return (pa_config self) ?returns = Some r"
      "ann_vol (pa_config self) ?returns = Some v" "0 \<le> v"
      "sharpe (pa_config self) ?returns = Some (if 0 < v then r / v else 0)"
      "sharpe (pa_config self) ?returns = Some 0 \<longleftrightarrow> v = 0 \<or> r = 0"
    by blast
  have names: "Regime rec = regime" "Asset rec = ticker"
    "Ann_Return_pct rec = Some (round_to 2 r)" "Ann_Vol_pct rec = Some (round_to 2 v)"
    "Sharpe rec = Some (round_to 2 (if 0 < v then r / v else 0))"
    by (simp_all add: rec perf_record_def rv(1,2,4) cell_round_def)
  from rv names show ?thesis by simp
qed

lemma regime_returns_frame_of:
  "regime_returns (frame_of xs) NORMAL ''SPY'' = xs"
proof -
  have "map (\<lambda>r. RET r ''SPY'') (rrows (frame_of xs)) = map Some xs"
    by (rule nth_equalityI) (simp_all add: frame_of_def mk_rrow_def)
  moreover have "filter (\<lambda>r. REGIME r = NORMAL) (rrows (frame_of xs)) = rrows (frame_of xs)"
    by (rule filter_True) (auto simp: frame_of_def mk_rrow_def)
  moreover have "finite_values (map Some xs) = xs"
    by (induction xs) (simp_all add: finite_values_def)
  ultimately show ?thesis
    by (simp add: regime_returns_def)
qed

lemma rising_returns_values:
  "ann_return Config rising_returns = Some 252 \<and>
   ann_vol Config rising_returns = Some (sqrt (1 / 9000) * sqrt 252 * 100)"
  by (simp add: ann_return_def ann_vol_def series_mean_def series_std_def rising_returns_def
        Config_def power2_eq_square)

theorem sharpe_is_guarded_quotient_witness:
  "regime_performance (analyzer_of rising_returns) =
     Inr [perf_record Config NORMAL ''SPY'' rising_returns] \<and>
   returns_data (analyzer_of rising_returns) = Some (frame_of rising_returns) \<and>
   ann_return Config rising_returns = Some 252 \<and>
   ann_vol Config rising_returns = Some (sqrt (1 / 9000) * sqrt 252 * 100) \<and>
   sharpe Config rising_returns = Some (252 / (sqrt (1 / 9000) * sqrt 252 * 100)) \<and>
   Sharpe (perf_record Config NORMAL ''SPY'' rising_returns) =
     Some (round_to 2 (252 / (sqrt (1 / 9000) * sqrt 252 * 100)))"
proof -
  let ?rec = "perf_record Config NORMAL ''SPY'' rising_returns"
  have run: "regime_performance (analyzer_of rising_returns) = Inr [?rec]"
    by (rule regime_performance_frame_of) (simp add: rising_returns_def)
  have df: "returns_data (analyzer_of rising_returns) = Some (frame_of rising_returns)"
    by (simp add: analyzer_of_def)
  have mem: "?rec \<in> set [?rec]" by simp
  have same: "regime_returns (frame_of rising_returns) (Regime ?rec) (Asset ?rec) = rising_returns"
    by (simp add: perf_record_def regime_returns_frame_of)
  have cfg: "pa_config (analyzer_of rising_returns) = Config"
    by (simp add: analyzer_of_def)
  from sharpe_is_guarded_quotient [OF run df mem] obtain r v
    where rv: "ann_return Config rising_returns = Some r" "ann_vol Config rising_returns = Some v"
      "sharpe Config rising_returns = Some (if 0 < v then r / v else 0)"
      "Sharpe ?rec = Some (round_to 2 (if 0 < v then r / v else 0))"
    unfolding same cfg by blast
  from rv(1,2) rising_returns_values
  have r: "r = 252" and v: "v = sqrt (1 / 9000) * sqrt 252 * 100" by simp_all
  have pos: "0 < v" unfolding v by simp
  from rv pos run df rising_returns_values show ?thesis
    by (simp add: r v [symmetric])
qed

text \<open>
  C6 as stated fails: ten ordinary daily returns that sum to zero give a
  positive annualized volatility and a Sharpe ratio of 0, which comes out of the division.
\<close>

theorem sharpe_zero_with_positive_volatility:
  "regime_performance (analyzer_of flat_returns) =
     Inr [perf_record Config NORMAL ''SPY'' flat_returns] \<and>
   ann_return Config flat_returns = Some 0 \<and>
   cell_gt (ann_vol Config flat_returns) 0 \<and>
   sharpe Config flat_returns = Some 0 \<and>
   Sharpe (perf_record Config NORMAL ''SPY'' flat_returns) = Some 0"
proof -
  have run: "regime_performance (analyzer_of flat_returns) =
      Inr [perf_record Config NORMAL ''SPY'' flat_returns]"
    by (rule regime_performance_frame_of) (simp add: flat_returns_def)
  have r: "ann_return Config flat_returns = Some 0"
    by (simp add: ann_return_def series_mean_def flat_returns_def)
  have v: "ann_vol Config flat_returns = Some (sqrt (8 / 90000) * sqrt 252 * 100)"
    by (simp add: ann_vol_def series_std_def flat_returns_def Config_def power2_eq_square)
  have pos: "cell_gt (ann_vol Config flat_returns) 0"
    unfolding v by (simp add: cell_gt_def)
  have s: "sharpe Config flat_returns = Some 0"
    unfolding sharpe_def r by (simp add: pos v real_div_def)
  have "round_to 2 0 = 0"
    by (simp add: round_to_def rint_def)
  then have "Sharpe (perf_record Config NORMAL ''SPY'' flat_returns) = Some 0"
    by (simp add: perf_record_def s cell_round_def)
  with run r pos s show ?thesis by simp
qed

subsection \<open>Returns computed from positive prices\<close>

lemma pct_change_above:
  assumes "\<forall>c \<in> set xs. \<forall>p. c = Some p \<longrightarrow> 0 < p" and "i < length xs"
    and "pct_change xs ! i = Some x"
  shows "- 1 < x"
proof -
  from assms(2,3) obtain cur prev where i: "0 < i" and c: "xs ! i = Some cur"
    and p: "xs ! (i - 1) = Some prev" and x: "x = cur / prev - 1"
    by (auto simp: pct_change_def split: if_splits option.splits)
  have "0 < cur" using assms(1,2) c by (metis nth_mem)
  moreover have "i - 1 < length xs" using assms(2) by simp
  then have "0 < prev" using assms(1) p by (metis nth_mem)
  ultimately have "0 < cur / prev" by simp
  with x show ?thesis by simp
qed

lemma add_returns_rows:
  assumes "i < length (lrows df)"
  shows "REGIME (rrows (add_returns cfg df) ! i) = REGIME (lrows df ! i) \<and>
         RET (rrows (add_returns cfg df) ! i) t =
           (if t \<in> set (TICKERS cfg) \<and> t \<in> set (lasset_columns df)
            then pct_change (map (\<lambda>r. price r t) (lrows df)) ! i else None)"
  using assms by (simp add: add_returns_def Let_def lrow.defs rrow.defs)

lemma calculate_returns_above:
  assumes "\<forall>r \<in> set (lrows (pa_data self)). \<forall>t p. price r t = Some p \<longrightarrow> 0 < p"
    and "calculate_returns self = (df, self')"
  shows "returns_data self' = Some df \<and>
         (\<forall>r \<in> set (rrows df). \<forall>t x. RET r t = Some x \<longrightarrow> - 1 < x)"
proof -
  let ?rows = "lrows (pa_data self)"
  from assms(2) have df: "df = add_returns (pa_config self) (pa_data self)"
    and self': "self' = self\<lparr>returns_data := Some df\<rparr>"
    by (auto simp: calculate_returns_def Let_def)
  have len: "length (rrows df) = length ?rows"
    by (simp add: df add_returns_def Let_def)
  have "\<forall>r \<in> set (rrows df). \<forall>t x. RET r t = Some x \<longrightarrow> - 1 < x"
  proof (intro ballI allI impI)
    fix r t x assume "r \<in> set (rrows df)" and rx: "RET r t = Some x"
    then obtain i where i: "i < length ?rows" "r = rrows df ! i"
      using len by (auto simp: in_set_conv_nth)
    with rx add_returns_rows [of i "pa_data self" "pa_config self" t]
    have pc: "pct_change (map (\<lambda>r. price r t) ?rows) ! i = Some x"
      by (auto simp: df split: if_splits)
    have "\<forall>c \<in> set (map (\<lambda>r. price r t) ?rows). \<forall>p. c = Some p \<longrightarrow> 0 < p"
      using assms(1) by auto
    from pct_change_above [OF this _ pc] i(1) show "- 1 < x" by simp
  qed
  with self' show ?thesis by simp
qed

end
